theory Spec2Isabelle
  imports Complex_Main "HOL-Library.Word" "HOL-Library.Log_Nat" "HOL-Library.AList"
begin

section \<open>Machine numbers\<close>

type_synonym u32 = "32 word"
type_synonym u64 = "64 word"

text \<open>
  The byte constants of the source are written as products of \<open>int\<close> literals
  (\<open>1536 * 1024 * 1024\<close>) that are converted to \<open>u64\<close> afterwards. The product is taken
  in 32-bit signed arithmetic (two's complement wrap-around, which is what the compilers
  in use produce where the product leaves the range) and then converted.
\<close>

definition int_to_u64 :: "int \<Rightarrow> u64" where
  "int_to_u64 i = of_int (signed_take_bit 31 i)"

subsection \<open>Single-precision floats\<close>

text \<open>
  A \<open>float\<close> is a finite value (kept as the exact rational it denotes), an infinity or
  NaN. The only float operations of the budget controller are the conversion of a \<open>u64\<close>,
  the quotient of two converted values and \<open>>=\<close>; both the conversion and the quotient
  round to the nearest value with a 24-bit significand, ties to even. Their results lie
  between \<open>2^-64\<close> and \<open>2^64\<close> (or are zero), so neither overflow nor subnormal numbers
  arise.
\<close>

datatype f32 = Fin rat | PInf | NInf | NaN

text \<open>
  \<open>ilog2 x\<close> is the binary exponent of a positive \<open>x\<close>, the \<open>e\<close> with
  \<open>2^e \<le> x < 2^(e+1)\<close>; \<open>f32_round\<close> keeps 24 significant bits of a non-negative value.
\<close>

definition ilog2 :: "rat \<Rightarrow> int" where
  "ilog2 x = (if 1 \<le> x then bitlen \<lfloor>x\<rfloor> - 1 else - bitlen (\<lceil>1 / x\<rceil> - 1))"

definition round_half_even :: "rat \<Rightarrow> int" where
  "round_half_even y = (let f = \<lfloor>y\<rfloor>; d = y - of_int f in
     if d < 1 / 2 then f else if 1 / 2 < d then f + 1 else if even f then f else f + 1)"

definition f32_round :: "rat \<Rightarrow> rat" where
  "f32_round x = (if x \<le> 0 then 0 else
     let u = 2 powi (ilog2 x - 23) in of_int (round_half_even (x / u)) * u)"

text \<open>A decimal literal such as \<open>0.60f\<close>.\<close>

definition f32_lit :: "rat \<Rightarrow> f32" where
  "f32_lit x = Fin (f32_round x)"

text \<open>\<open>static_cast<float>\<close> of a \<open>u64\<close>.\<close>

definition f32_of_u64 :: "u64 \<Rightarrow> f32" where
  "f32_of_u64 n = Fin (f32_round (of_int (uint n)))"

text \<open>
  The quotient of two finite floats (both operands of the one division in the source are
  converted integers, so no other case arises; those are left at NaN). A positive value
  divided by zero is \<open>+inf\<close>, zero divided by zero is NaN.
\<close>

fun f32_div :: "f32 \<Rightarrow> f32 \<Rightarrow> f32" where
  "f32_div (Fin x) (Fin y) =
     (if y = 0 then (if x = 0 then NaN else if 0 < x then PInf else NInf)
      else Fin (f32_round (x / y)))"
| "f32_div _ _ = NaN"

text \<open>\<open>a >= b\<close> on floats: false as soon as one side is NaN.\<close>

fun f32_ge :: "f32 \<Rightarrow> f32 \<Rightarrow> bool" where
  "f32_ge NaN _ = False"
| "f32_ge _ NaN = False"
| "f32_ge PInf _ = True"
| "f32_ge _ NInf = True"
| "f32_ge NInf _ = False"
| "f32_ge _ PInf = False"
| "f32_ge (Fin x) (Fin y) = (y \<le> x)"

section \<open>Budget controller (\<open>VRAMManager\<close>)\<close>

datatype MemoryPressure = None_Pressure | Low | Medium | High | Critical

text \<open>The enumerators in declaration order; \<open>>=\<close> on the enum compares these numbers.\<close>

fun pressure_rank :: "MemoryPressure \<Rightarrow> nat" where
  "pressure_rank None_Pressure = 0"
| "pressure_rank Low = 1"
| "pressure_rank Medium = 2"
| "pressure_rank High = 3"
| "pressure_rank Critical = 4"

datatype DeviceTier = LowEnd | MidRange | HighEnd | Flagship

record Config =
  vram_cap_bytes :: u64
  device_tier :: DeviceTier
  low_pressure_threshold :: f32
  medium_pressure_threshold :: f32
  high_pressure_threshold :: f32
  critical_pressure_threshold :: f32
  cleanup_threshold_bytes :: u64
  emergency_threshold_bytes :: u64
  enable_auto_cleanup :: bool
  enable_emergency_purge :: bool
  log_interval_frames :: u32

text \<open>The member initialisers of \<open>struct Config\<close>.\<close>

definition default_Config :: Config where
  "default_Config = \<lparr>
     vram_cap_bytes = int_to_u64 (1536 * 1024 * 1024),
     device_tier = MidRange,
     low_pressure_threshold = f32_lit (60 / 100),
     medium_pressure_threshold = f32_lit (75 / 100),
     high_pressure_threshold = f32_lit (85 / 100),
     critical_pressure_threshold = f32_lit (95 / 100),
     cleanup_threshold_bytes = int_to_u64 (1280 * 1024 * 1024),
     emergency_threshold_bytes = int_to_u64 (1460 * 1024 * 1024),
     enable_auto_cleanup = True,
     enable_emergency_purge = True,
     log_interval_frames = 300 \<rparr>"

fun GetRecommendedConfig :: "DeviceTier \<Rightarrow> Config" where
  "GetRecommendedConfig LowEnd = default_Config \<lparr>
     vram_cap_bytes := int_to_u64 (1024 * 1024 * 1024),
     cleanup_threshold_bytes := int_to_u64 (870 * 1024 * 1024),
     emergency_threshold_bytes := int_to_u64 (970 * 1024 * 1024),
     low_pressure_threshold := f32_lit (50 / 100),
     medium_pressure_threshold := f32_lit (65 / 100),
     high_pressure_threshold := f32_lit (80 / 100),
     critical_pressure_threshold := f32_lit (90 / 100),
     device_tier := LowEnd \<rparr>"
| "GetRecommendedConfig MidRange = default_Config \<lparr>
     vram_cap_bytes := int_to_u64 (1536 * 1024 * 1024),
     cleanup_threshold_bytes := int_to_u64 (1280 * 1024 * 1024),
     emergency_threshold_bytes := int_to_u64 (1460 * 1024 * 1024),
     low_pressure_threshold := f32_lit (60 / 100),
     medium_pressure_threshold := f32_lit (75 / 100),
     high_pressure_threshold := f32_lit (85 / 100),
     critical_pressure_threshold := f32_lit (95 / 100),
     device_tier := MidRange \<rparr>"
| "GetRecommendedConfig HighEnd = default_Config \<lparr>
     vram_cap_bytes := int_to_u64 (2048 * 1024 * 1024),
     cleanup_threshold_bytes := int_to_u64 (1740 * 1024 * 1024),
     emergency_threshold_bytes := int_to_u64 (1940 * 1024 * 1024),
     low_pressure_threshold := f32_lit (65 / 100),
     medium_pressure_threshold := f32_lit (80 / 100),
     high_pressure_threshold := f32_lit (90 / 100),
     critical_pressure_threshold := f32_lit (95 / 100),
     device_tier := HighEnd \<rparr>"
| "GetRecommendedConfig Flagship = default_Config \<lparr>
     vram_cap_bytes := int_to_u64 (3072 * 1024 * 1024),
     cleanup_threshold_bytes := int_to_u64 (2600 * 1024 * 1024),
     emergency_threshold_bytes := int_to_u64 (2900 * 1024 * 1024),
     low_pressure_threshold := f32_lit (70 / 100),
     medium_pressure_threshold := f32_lit (85 / 100),
     high_pressure_threshold := f32_lit (92 / 100),
     critical_pressure_threshold := f32_lit (95 / 100),
     device_tier := Flagship \<rparr>"

text \<open>
  The callbacks are closures of the host renderer. A cleanup callback is a function on the
  host's state \<open>'w\<close> that also returns the bytes it freed, an emergency callback a function
  on the host's state. The controller's state carries the host state the callbacks act on
  (\<open>host\<close>) and the sequence of callback invocations made so far (\<open>calls\<close>), each with
  the callback's position in registration order. A callback that calls back into the
  controller is outside this model. Log output is not modelled.
\<close>

datatype callback_call = CleanupCall nat | EmergencyCall nat

record 'w VRAMManager =
  config :: Config
  current_usage :: u64
  peak_usage :: u64
  current_frame :: u32
  cleanup_callbacks :: "('w \<Rightarrow> u64 \<times> 'w) list"
  emergency_callbacks :: "('w \<Rightarrow> 'w) list"
  cleanup_count :: u32
  emergency_purge_count :: u32
  total_bytes_freed :: u64
  last_pressure :: MemoryPressure
  last_cleanup_frame :: u32
  last_emergency_frame :: u32
  host :: 'w
  calls :: "callback_call list"

text \<open>The constructor: every member at its initialiser, no callback registered.\<close>

definition new_VRAMManager :: "Config \<Rightarrow> 'w \<Rightarrow> 'w VRAMManager" where
  "new_VRAMManager cfg w = \<lparr>
     config = cfg, current_usage = 0, peak_usage = 0, current_frame = 0,
     cleanup_callbacks = [], emergency_callbacks = [],
     cleanup_count = 0, emergency_purge_count = 0, total_bytes_freed = 0,
     last_pressure = None_Pressure, last_cleanup_frame = 0, last_emergency_frame = 0,
     host = w, calls = [] \<rparr>"

definition RegisterCleanupCallback ::
    "('w \<Rightarrow> u64 \<times> 'w) \<Rightarrow> 'w VRAMManager \<Rightarrow> 'w VRAMManager" where
  "RegisterCleanupCallback callback s =
     s\<lparr>cleanup_callbacks := cleanup_callbacks s @ [callback]\<rparr>"

definition RegisterEmergencyCallback ::
    "('w \<Rightarrow> 'w) \<Rightarrow> 'w VRAMManager \<Rightarrow> 'w VRAMManager" where
  "RegisterEmergencyCallback callback s =
     s\<lparr>emergency_callbacks := emergency_callbacks s @ [callback]\<rparr>"

definition GetUsagePercentage :: "'w VRAMManager \<Rightarrow> f32" where
  "GetUsagePercentage s =
     f32_div (f32_of_u64 (current_usage s)) (f32_of_u64 (vram_cap_bytes (config s)))"

definition CalculatePressure :: "'w VRAMManager \<Rightarrow> MemoryPressure" where
  "CalculatePressure s =
     (let usage = GetUsagePercentage s in
      if f32_ge usage (critical_pressure_threshold (config s)) then Critical
      else if f32_ge usage (high_pressure_threshold (config s)) then High
      else if f32_ge usage (medium_pressure_threshold (config s)) then Medium
      else if f32_ge usage (low_pressure_threshold (config s)) then Low
      else None_Pressure)"

definition GetMemoryPressure :: "'w VRAMManager \<Rightarrow> MemoryPressure" where
  "GetMemoryPressure s = CalculatePressure s"

text \<open>
  The loop over \<open>cleanup_callbacks_\<close>: the \<open>i\<close>-th callback runs on the host state left by
  the ones before it, and its result is added to \<open>total_freed\<close>.
\<close>

fun run_cleanup_callbacks ::
    "('w \<Rightarrow> u64 \<times> 'w) list \<Rightarrow> nat \<Rightarrow> u64 \<times> 'w \<times> callback_call list
       \<Rightarrow> u64 \<times> 'w \<times> callback_call list" where
  "run_cleanup_callbacks [] i acc = acc"
| "run_cleanup_callbacks (callback # rest) i (total_freed, w, tr) =
     (let (freed, w') = callback w
      in run_cleanup_callbacks rest (Suc i) (total_freed + freed, w', tr @ [CleanupCall i]))"

fun run_emergency_callbacks ::
    "('w \<Rightarrow> 'w) list \<Rightarrow> nat \<Rightarrow> 'w \<times> callback_call list \<Rightarrow> 'w \<times> callback_call list" where
  "run_emergency_callbacks [] i acc = acc"
| "run_emergency_callbacks (callback # rest) i (w, tr) =
     run_emergency_callbacks rest (Suc i) (callback w, tr @ [EmergencyCall i])"

definition ExecuteCleanup :: "'w VRAMManager \<Rightarrow> 'w VRAMManager" where
  "ExecuteCleanup s =
     (if \<not> enable_auto_cleanup (config s) then s
      else if current_frame s - last_cleanup_frame s < 60 then s
      else
        let (total_freed, w, tr) =
              run_cleanup_callbacks (cleanup_callbacks s) 0 (0, host s, calls s)
        in s\<lparr>host := w, calls := tr,
              cleanup_count := cleanup_count s + 1,
              total_bytes_freed := total_bytes_freed s + total_freed,
              last_cleanup_frame := current_frame s\<rparr>)"

definition ExecuteEmergencyPurge :: "'w VRAMManager \<Rightarrow> 'w VRAMManager" where
  "ExecuteEmergencyPurge s =
     (if \<not> enable_emergency_purge (config s) then s
      else if current_frame s - last_emergency_frame s < 120 then s
      else
        let (w, tr) = run_emergency_callbacks (emergency_callbacks s) 0 (host s, calls s);
            s1 = ExecuteCleanup (s\<lparr>host := w, calls := tr\<rparr>)
        in s1\<lparr>emergency_purge_count := emergency_purge_count s1 + 1,
               last_emergency_frame := current_frame s1\<rparr>)"

definition HandlePressureChange :: "MemoryPressure \<Rightarrow> 'w VRAMManager \<Rightarrow> 'w VRAMManager" where
  "HandlePressureChange new_pressure s =
     (let s1 = (if pressure_rank High \<le> pressure_rank new_pressure
                then ExecuteCleanup s else s)
      in if new_pressure = Critical then ExecuteEmergencyPurge s1 else s1)"

definition ShouldCleanup :: "'w VRAMManager \<Rightarrow> bool" where
  "ShouldCleanup s \<longleftrightarrow>
     enable_auto_cleanup (config s) \<and>
     cleanup_threshold_bytes (config s) \<le> current_usage s \<and>
     60 \<le> current_frame s - last_cleanup_frame s"

definition ShouldEmergencyPurge :: "'w VRAMManager \<Rightarrow> bool" where
  "ShouldEmergencyPurge s \<longleftrightarrow>
     enable_emergency_purge (config s) \<and>
     emergency_threshold_bytes (config s) \<le> current_usage s \<and>
     120 \<le> current_frame s - last_emergency_frame s"

definition UpdateUsage :: "u64 \<Rightarrow> 'w VRAMManager \<Rightarrow> 'w VRAMManager" where
  "UpdateUsage current_vram_bytes s =
     (let s1 = s\<lparr>current_usage := current_vram_bytes\<rparr>;
          s2 = (if peak_usage s1 < current_usage s1
                then s1\<lparr>peak_usage := current_usage s1\<rparr> else s1);
          new_pressure = CalculatePressure s2;
          s3 = (if new_pressure \<noteq> last_pressure s2
                then (HandlePressureChange new_pressure s2)\<lparr>last_pressure := new_pressure\<rparr>
                else s2);
          s4 = (if ShouldCleanup s3 then ExecuteCleanup s3 else s3)
      in if ShouldEmergencyPurge s4 then ExecuteEmergencyPurge s4 else s4)"

definition RequestCleanup :: "'w VRAMManager \<Rightarrow> 'w VRAMManager" where
  "RequestCleanup s = ExecuteCleanup s"

definition ForceEmergencyPurge :: "'w VRAMManager \<Rightarrow> 'w VRAMManager" where
  "ForceEmergencyPurge s = ExecuteEmergencyPurge s"

text \<open>
  \<open>TickFrame\<close> advances the frame counter. The periodic log line leaves the state alone
  (its period \<open>log_interval_frames\<close> is a divisor and taken to be non-zero).
\<close>

definition TickFrame :: "'w VRAMManager \<Rightarrow> 'w VRAMManager" where
  "TickFrame s = s\<lparr>current_frame := current_frame s + 1\<rparr>"

definition IsOverLimit :: "'w VRAMManager \<Rightarrow> bool" where
  "IsOverLimit s \<longleftrightarrow> vram_cap_bytes (config s) < current_usage s"

definition CanAllocate :: "u64 \<Rightarrow> 'w VRAMManager \<Rightarrow> bool" where
  "CanAllocate size_bytes s \<longleftrightarrow> current_usage s + size_bytes \<le> vram_cap_bytes (config s)"

text \<open>A run of the controller: the host's calls, in order.\<close>

datatype 'w vram_op =
    OpUpdateUsage u64
  | OpTickFrame
  | OpRequestCleanup
  | OpForceEmergencyPurge
  | OpRegisterCleanupCallback "'w \<Rightarrow> u64 \<times> 'w"
  | OpRegisterEmergencyCallback "'w \<Rightarrow> 'w"

fun vram_step :: "'w vram_op \<Rightarrow> 'w VRAMManager \<Rightarrow> 'w VRAMManager" where
  "vram_step (OpUpdateUsage b) s = UpdateUsage b s"
| "vram_step OpTickFrame s = TickFrame s"
| "vram_step OpRequestCleanup s = RequestCleanup s"
| "vram_step OpForceEmergencyPurge s = ForceEmergencyPurge s"
| "vram_step (OpRegisterCleanupCallback cb) s = RegisterCleanupCallback cb s"
| "vram_step (OpRegisterEmergencyCallback cb) s = RegisterEmergencyCallback cb s"

fun vram_run :: "'w vram_op list \<Rightarrow> 'w VRAMManager \<Rightarrow> 'w VRAMManager" where
  "vram_run [] s = s"
| "vram_run (op # ops) s = vram_run ops (vram_step op s)"

text \<open>The cleanup-callback invocations of a log, and the ticks of a run.\<close>

fun is_cleanup_call :: "callback_call \<Rightarrow> bool" where
  "is_cleanup_call (CleanupCall i) = True"
| "is_cleanup_call (EmergencyCall i) = False"

fun is_tick :: "'w vram_op \<Rightarrow> bool" where
  "is_tick OpTickFrame = True"
| "is_tick _ = False"

definition MiB :: "u64 \<Rightarrow> u64" where
  "MiB n = n * 1024 * 1024"

section \<open>Eviction engine (\<open>TextureGarbageCollector\<close>)\<close>

text \<open>
  \<open>tracked_textures_\<close> is a \<open>std::unordered_map\<close>: here an association list with one
  entry per key, in the order in which the table is iterated. The standard libraries in
  use link the node of a new key at the front of the table's node list, so the table is
  iterated newest key first: \<open>table[key] = value\<close> puts a new key in front and overwrites
  an existing key in place; erasing a key leaves the order of the others. An \<open>ImageId\<close>
  is a 32-bit slot index.
\<close>

type_synonym ImageId = u32

definition table_assign :: "'k \<Rightarrow> 'v \<Rightarrow> ('k \<times> 'v) list \<Rightarrow> ('k \<times> 'v) list" where
  "table_assign k v table =
     (case map_of table k of
        None \<Rightarrow> (k, v) # table
      | Some old \<Rightarrow> AList.update k v table)"

record TextureInfo =
  size_bytes :: u64
  last_used_frame :: u32
  is_render_target :: bool
  usage_count :: u32

record GCConfig =
  unused_frame_threshold :: u32
  aggressive_mode :: bool
  aggressive_threshold :: u32
  memory_pressure_mb :: u64
  max_vram_target_mb :: u64

definition default_GCConfig :: GCConfig where
  "default_GCConfig = \<lparr>
     unused_frame_threshold = 60, aggressive_mode = True, aggressive_threshold = 30,
     memory_pressure_mb = 512, max_vram_target_mb = 1024 \<rparr>"

record TextureGarbageCollector =
  gc_config :: GCConfig
  gc_current_frame :: u32
  current_vram_usage :: u64
  tracked_textures :: "(ImageId \<times> TextureInfo) list"
  total_textures_purged :: u64
  total_vram_freed :: u64

definition new_TextureGarbageCollector :: "GCConfig \<Rightarrow> TextureGarbageCollector" where
  "new_TextureGarbageCollector cfg = \<lparr>
     gc_config = cfg, gc_current_frame = 0, current_vram_usage = 0, tracked_textures = [],
     total_textures_purged = 0, total_vram_freed = 0 \<rparr>"

definition gc_TickFrame :: "TextureGarbageCollector \<Rightarrow> TextureGarbageCollector" where
  "gc_TickFrame s = s\<lparr>gc_current_frame := gc_current_frame s + 1\<rparr>"

definition MarkTextureUsed :: "ImageId \<Rightarrow> TextureGarbageCollector \<Rightarrow> TextureGarbageCollector" where
  "MarkTextureUsed image_id s =
     (case map_of (tracked_textures s) image_id of
        None \<Rightarrow> s
      | Some info \<Rightarrow>
          s\<lparr>tracked_textures := AList.update image_id
               (info\<lparr>last_used_frame := gc_current_frame s, usage_count := usage_count info + 1\<rparr>)
               (tracked_textures s)\<rparr>)"

definition RegisterTexture ::
    "ImageId \<Rightarrow> u64 \<Rightarrow> bool \<Rightarrow> TextureGarbageCollector \<Rightarrow> TextureGarbageCollector" where
  "RegisterTexture image_id sz is_rt s =
     (let info = \<lparr>size_bytes = sz, last_used_frame = gc_current_frame s,
                   is_render_target = is_rt, usage_count = 1\<rparr>
      in s\<lparr>tracked_textures := table_assign image_id info (tracked_textures s),
            current_vram_usage := current_vram_usage s + sz\<rparr>)"

definition UnregisterTexture :: "ImageId \<Rightarrow> TextureGarbageCollector \<Rightarrow> TextureGarbageCollector" where
  "UnregisterTexture image_id s =
     (case map_of (tracked_textures s) image_id of
        None \<Rightarrow> s
      | Some info \<Rightarrow>
          s\<lparr>current_vram_usage := current_vram_usage s - size_bytes info,
            tracked_textures := AList.delete image_id (tracked_textures s)\<rparr>)"

definition IsMemoryPressureHigh :: "TextureGarbageCollector \<Rightarrow> bool" where
  "IsMemoryPressureHigh s =
     (let vram_mb = current_vram_usage s div 1024 div 1024
      in memory_pressure_mb (gc_config s) < vram_mb \<or> max_vram_target_mb (gc_config s) < vram_mb)"

definition UpdateMemoryUsage :: "u64 \<Rightarrow> TextureGarbageCollector \<Rightarrow> TextureGarbageCollector" where
  "UpdateMemoryUsage current_vram_bytes s = s\<lparr>current_vram_usage := current_vram_bytes\<rparr>"

definition GetEffectiveThreshold :: "TextureGarbageCollector \<Rightarrow> u32" where
  "GetEffectiveThreshold s =
     (if aggressive_mode (gc_config s) \<and> IsMemoryPressureHigh s
      then aggressive_threshold (gc_config s)
      else unused_frame_threshold (gc_config s))"

definition ShouldPurgeTexture :: "TextureGarbageCollector \<Rightarrow> TextureInfo \<Rightarrow> u32 \<Rightarrow> bool" where
  "ShouldPurgeTexture s info frames_unused =
     (let threshold = GetEffectiveThreshold s in
      if frames_unused < threshold then False
      else if is_render_target info then threshold * 2 < frames_unused
      else if 100 < usage_count info then threshold + 30 < frames_unused
      else if IsMemoryPressureHigh s then threshold div 2 < frames_unused
      else threshold \<le> frames_unused)"

text \<open>
  \<open>std::sort\<close> with a comparator, as an insertion sort that keeps equivalent elements in
  their order (\<open>std::sort\<close> leaves the order of equivalent elements unspecified).
\<close>

fun insert_by :: "('a \<Rightarrow> 'a \<Rightarrow> bool) \<Rightarrow> 'a \<Rightarrow> 'a list \<Rightarrow> 'a list" where
  "insert_by lt x [] = [x]"
| "insert_by lt x (y # ys) = (if lt y x then y # insert_by lt x ys else x # y # ys)"

fun sort_by :: "('a \<Rightarrow> 'a \<Rightarrow> bool) \<Rightarrow> 'a list \<Rightarrow> 'a list" where
  "sort_by lt [] = []"
| "sort_by lt (x # xs) = insert_by lt x (sort_by lt xs)"

text \<open>
  The comparator of \<open>SortTexturesByPriority\<close>. The source looks both ids up with \<open>at()\<close>;
  every id it sorts was just taken from the table, so the entries are sorted with their
  \<open>TextureInfo\<close> at hand.
\<close>

definition priority_less :: "ImageId \<times> TextureInfo \<Rightarrow> ImageId \<times> TextureInfo \<Rightarrow> bool" where
  "priority_less a b =
     (let info_a = snd a; info_b = snd b in
      if is_render_target info_a \<noteq> is_render_target info_b
      then \<not> is_render_target info_a \<and> is_render_target info_b
      else if size_bytes info_a \<noteq> size_bytes info_b
      then size_bytes info_b < size_bytes info_a
      else usage_count info_a < usage_count info_b)"

definition SortTexturesByPriority ::
    "(ImageId \<times> TextureInfo) list \<Rightarrow> (ImageId \<times> TextureInfo) list" where
  "SortTexturesByPriority textures = sort_by priority_less textures"

definition purge_candidates :: "TextureGarbageCollector \<Rightarrow> (ImageId \<times> TextureInfo) list" where
  "purge_candidates s =
     filter (\<lambda>(image_id, info).
               ShouldPurgeTexture s info (gc_current_frame s - last_used_frame info))
            (tracked_textures s)"

fun update_purge_statistics ::
    "ImageId list \<Rightarrow> TextureGarbageCollector \<Rightarrow> TextureGarbageCollector" where
  "update_purge_statistics [] s = s"
| "update_purge_statistics (image_id # rest) s =
     update_purge_statistics rest
       (case map_of (tracked_textures s) image_id of
          None \<Rightarrow> s
        | Some info \<Rightarrow> s\<lparr>total_textures_purged := total_textures_purged s + 1,
                         total_vram_freed := total_vram_freed s + size_bytes info\<rparr>)"

definition GetTexturesToPurge ::
    "TextureGarbageCollector \<Rightarrow> ImageId list \<times> TextureGarbageCollector" where
  "GetTexturesToPurge s =
     (let to_purge = map fst (SortTexturesByPriority (purge_candidates s));
          to_purge = (if IsMemoryPressureHigh s \<and> 10 < length to_purge
                      then take (min (length to_purge) 50) to_purge else to_purge)
      in (to_purge, update_purge_statistics to_purge s))"




text \<open>The sum of the sizes of the tracked resources, in \<open>u64\<close> arithmetic.\<close>

definition tracked_size_sum :: "TextureGarbageCollector \<Rightarrow> u64" where
  "tracked_size_sum s = sum_list (map (\<lambda>(image_id, info). size_bytes info) (tracked_textures s))"

section \<open>Resource pool (\<open>CommandBufferPool\<close>)\<close>

text \<open>
  A \<open>BufferPtr\<close> is a shared pointer to a \<open>CommandBuffer\<close>. The buffer objects live in a
  store (\<open>buffers\<close>) and a pointer is the number of the allocation that created its
  object (\<open>allocation_id_\<close>), so two pointers are equal exactly when they point to the same
  object; the null pointer is \<open>None\<close>. Of a buffer's byte vector only the size is kept.
  \<open>size_t\<close> is 64 bits wide. Counts are natural numbers (a container holds far fewer than
  \<open>2^62\<close> pointers, so three times its size does not wrap); where a \<open>size_t\<close>
  subtraction, sum or product can leave the range, the wrap-around is written out.
\<close>

type_synonym BufferPtr = nat

record CommandBuffer =
  data_size :: nat
  position :: nat

record PoolConfig =
  initial_pool_size :: nat
  max_pool_size :: nat
  buffer_size :: nat
  auto_expand :: bool
  auto_shrink :: bool
  shrink_delay_frames :: u32

definition default_PoolConfig :: PoolConfig where
  "default_PoolConfig = \<lparr>
     initial_pool_size = 16, max_pool_size = 64, buffer_size = 1024 * 1024,
     auto_expand = True, auto_shrink = True, shrink_delay_frames = 300 \<rparr>"

record CommandBufferPool =
  pool_config :: PoolConfig
  available_buffers :: "BufferPtr list"
  all_buffers :: "BufferPtr list"
  buffers :: "BufferPtr \<Rightarrow> CommandBuffer option"
  total_acquisitions :: u64
  total_releases :: u64
  pool_expansions :: u64
  pool_shrinks :: u64
  pool_current_frame :: u32
  last_shrink_frame :: u32
  next_allocation_id :: nat

record PoolStats =
  total_buffers :: nat
  stat_available_buffers :: nat
  active_buffers :: nat
  total_memory_mb :: nat
  stat_total_acquisitions :: u64
  stat_total_releases :: u64
  stat_pool_expansions :: u64
  stat_pool_shrinks :: u64
  stat_current_frame :: u32

definition size_t_max :: nat where
  "size_t_max = 2 ^ 64"

definition Reset :: "BufferPtr \<Rightarrow> CommandBufferPool \<Rightarrow> CommandBufferPool" where
  "Reset b s =
     (case buffers s b of
        None \<Rightarrow> s
      | Some buf \<Rightarrow> s\<lparr>buffers := (buffers s)(b \<mapsto> buf\<lparr>position := 0\<rparr>)\<rparr>)"

definition CreateBuffer :: "CommandBufferPool \<Rightarrow> BufferPtr \<times> CommandBufferPool" where
  "CreateBuffer s =
     (let b = next_allocation_id s
      in (b, s\<lparr>buffers := (buffers s)(b \<mapsto> \<lparr>data_size = buffer_size (pool_config s), position = 0\<rparr>),
               next_allocation_id := next_allocation_id s + 1\<rparr>))"

text \<open>
  The loop shared by \<open>InitializePool\<close> and \<open>ExpandPool\<close>: \<open>n\<close> times, create a buffer and
  add it to the available queue and to the tracked buffers.
\<close>

fun add_buffers :: "nat \<Rightarrow> CommandBufferPool \<Rightarrow> CommandBufferPool" where
  "add_buffers 0 s = s"
| "add_buffers (Suc n) s =
     (let (b, s1) = CreateBuffer s
      in add_buffers n (s1\<lparr>available_buffers := available_buffers s1 @ [b],
                            all_buffers := all_buffers s1 @ [b]\<rparr>))"

definition InitializePool :: "CommandBufferPool \<Rightarrow> CommandBufferPool" where
  "InitializePool s = add_buffers (initial_pool_size (pool_config s)) s"

definition new_CommandBufferPool :: "PoolConfig \<Rightarrow> CommandBufferPool" where
  "new_CommandBufferPool cfg = InitializePool \<lparr>
     pool_config = cfg, available_buffers = [], all_buffers = [], buffers = Map.empty,
     total_acquisitions = 0, total_releases = 0, pool_expansions = 0, pool_shrinks = 0,
     pool_current_frame = 0, last_shrink_frame = 0, next_allocation_id = 0 \<rparr>"

definition AcquireBuffer :: "CommandBufferPool \<Rightarrow> BufferPtr \<times> CommandBufferPool" where
  "AcquireBuffer s =
     (let (buffer, s1) =
        (case available_buffers s of
           b # rest \<Rightarrow> (b, Reset b (s\<lparr>available_buffers := rest\<rparr>))
         | [] \<Rightarrow>
             if auto_expand (pool_config s) \<and> length (all_buffers s) < max_pool_size (pool_config s)
             then (let (b, s') = CreateBuffer s
                   in (b, s'\<lparr>all_buffers := all_buffers s' @ [b],
                             pool_expansions := pool_expansions s' + 1\<rparr>))
             else CreateBuffer s)
      in (buffer, s1\<lparr>total_acquisitions := total_acquisitions s1 + 1\<rparr>))"

definition ReleaseBuffer :: "BufferPtr option \<Rightarrow> CommandBufferPool \<Rightarrow> CommandBufferPool" where
  "ReleaseBuffer buffer s =
     (case buffer of
        None \<Rightarrow> s
      | Some b \<Rightarrow>
          (let is_pool_buffer = (b \<in> set (all_buffers s));
               s1 = (if is_pool_buffer
                     then (let s' = Reset b s
                           in s'\<lparr>available_buffers := available_buffers s' @ [b]\<rparr>)
                     else s)
           in s1\<lparr>total_releases := total_releases s1 + 1\<rparr>))"

definition ExpandPool :: "nat \<Rightarrow> CommandBufferPool \<Rightarrow> CommandBufferPool" where
  "ExpandPool n s =
     (let new_total = (length (all_buffers s) + n) mod size_t_max;
          n' = (if max_pool_size (pool_config s) < new_total
                then (size_t_max + max_pool_size (pool_config s) - length (all_buffers s))
                       mod size_t_max
                else n);
          s1 = add_buffers n' s
      in s1\<lparr>pool_expansions := pool_expansions s1 + 1\<rparr>)"

text \<open>
  The loop of \<open>ShrinkPool\<close>: pop the front of the available queue and erase every
  tracked pointer equal to it, \<open>to_remove\<close> times or until the queue is empty.
\<close>

fun shrink_loop :: "nat \<Rightarrow> BufferPtr list \<Rightarrow> BufferPtr list \<Rightarrow> BufferPtr list \<times> BufferPtr list" where
  "shrink_loop 0 avail tracked = (avail, tracked)"
| "shrink_loop (Suc n) [] tracked = ([], tracked)"
| "shrink_loop (Suc n) (buffer # avail) tracked =
     shrink_loop n avail (filter (\<lambda>b. b \<noteq> buffer) tracked)"

definition ShrinkPool :: "CommandBufferPool \<Rightarrow> CommandBufferPool" where
  "ShrinkPool s =
     (let available_count = length (available_buffers s);
          target_available = initial_pool_size (pool_config s) div 2
      in if available_count \<le> target_available then s
         else
           let to_remove = available_count - target_available;
               (avail, tracked) = shrink_loop to_remove (available_buffers s) (all_buffers s)
           in s\<lparr>available_buffers := avail, all_buffers := tracked,
                 pool_shrinks := pool_shrinks s + 1,
                 last_shrink_frame := pool_current_frame s\<rparr>)"

definition ShouldExpand :: "CommandBufferPool \<Rightarrow> bool" where
  "ShouldExpand s \<longleftrightarrow>
     available_buffers s = [] \<and> length (all_buffers s) < max_pool_size (pool_config s)"

definition ShouldShrink :: "CommandBufferPool \<Rightarrow> bool" where
  "ShouldShrink s =
     (if pool_current_frame s - last_shrink_frame s < shrink_delay_frames (pool_config s)
      then False
      else
        let available_count = length (available_buffers s);
            total_count = length (all_buffers s)
        in initial_pool_size (pool_config s) < total_count \<and>
           total_count * 3 div 4 < available_count)"

definition pool_TickFrame :: "CommandBufferPool \<Rightarrow> CommandBufferPool" where
  "pool_TickFrame s =
     (let s1 = s\<lparr>pool_current_frame := pool_current_frame s + 1\<rparr>
      in if auto_shrink (pool_config s1) \<and> ShouldShrink s1 then ShrinkPool s1 else s1)"

definition GetStats :: "CommandBufferPool \<Rightarrow> PoolStats" where
  "GetStats s =
     (let total = length (all_buffers s);
          avail = length (available_buffers s)
      in \<lparr> total_buffers = total,
            stat_available_buffers = avail,
            active_buffers = (size_t_max + total - avail) mod size_t_max,
            total_memory_mb =
              ((total * buffer_size (pool_config s)) mod size_t_max) div (1024 * 1024),
            stat_total_acquisitions = total_acquisitions s,
            stat_total_releases = total_releases s,
            stat_pool_expansions = pool_expansions s,
            stat_pool_shrinks = pool_shrinks s,
            stat_current_frame = pool_current_frame s \<rparr>)"

text \<open>Acquire \<open>n\<close> buffers in a row, keeping the handles; release a list of handles.\<close>

fun acquire_many :: "nat \<Rightarrow> CommandBufferPool \<Rightarrow> BufferPtr list \<times> CommandBufferPool" where
  "acquire_many 0 s = ([], s)"
| "acquire_many (Suc n) s =
     (let (b, s1) = AcquireBuffer s; (bs, s2) = acquire_many n s1 in (b # bs, s2))"


section \<open>Auxiliary definitions for the statements\<close>

text \<open>
  What the cleanup gate is about: the frame counter, the frame of the last cleanup, the
  number of cleanups and the cleanup-callback invocations made so far.
\<close>

definition cleanup_view :: "'w VRAMManager \<Rightarrow> u32 \<times> u32 \<times> u32 \<times> callback_call list" where
  "cleanup_view s =
     (current_frame s, last_cleanup_frame s, cleanup_count s, filter is_cleanup_call (calls s))"

text \<open>
  Three usage updates on three consecutive frames (\<open>TickFrame\<close> between them); the result
  is the controller after each update.
\<close>

definition usage_sequence ::
    "u64 \<Rightarrow> u64 \<Rightarrow> u64 \<Rightarrow> 'w VRAMManager \<Rightarrow> 'w VRAMManager \<times> 'w VRAMManager \<times> 'w VRAMManager" where
  "usage_sequence a b c s =
     (let s1 = UpdateUsage a s;
          s2 = UpdateUsage b (TickFrame s1);
          s3 = UpdateUsage c (TickFrame s2)
      in (s1, s2, s3))"

text \<open>
  A host with one cleanup and one emergency callback on a freshly constructed controller
  with the \<open>MidRange\<close> preset, and the same controller 200 frames later.
\<close>

definition example_cleanup :: "nat \<Rightarrow> u64 \<times> nat" where
  "example_cleanup w = (MiB 1, Suc w)"

definition example_emergency :: "nat \<Rightarrow> nat" where
  "example_emergency w = w + 100"

definition fresh_midrange :: "nat VRAMManager" where
  "fresh_midrange =
     RegisterEmergencyCallback example_emergency
       (RegisterCleanupCallback example_cleanup
          (new_VRAMManager (GetRecommendedConfig MidRange) 0))"

definition warm_midrange :: "nat VRAMManager" where
  "warm_midrange = (TickFrame ^^ 200) fresh_midrange"

text \<open>
  An engine under its pressure predicate: one resource of 600 MiB, not pinned, registered
  at frame 0 and not used since, 20 frames later (default configuration: aggressive mode
  on, aggressive threshold 30 frames, pressure above 512 MB).
\<close>

definition pressure_example :: TextureGarbageCollector where
  "pressure_example =
     (gc_TickFrame ^^ 20)
       (RegisterTexture 1 (MiB 600) False (new_TextureGarbageCollector default_GCConfig))"


text \<open>
  One resource of 100 MiB with id 7 on a new engine, and the engine after the same
  registration was made a second time.
\<close>

definition one_registered :: TextureGarbageCollector where
  "one_registered =
     RegisterTexture 7 (MiB 100) False (new_TextureGarbageCollector default_GCConfig)"

definition twice_registered :: TextureGarbageCollector where
  "twice_registered = RegisterTexture 7 (MiB 100) False one_registered"

text \<open>
  The tracked buffers are pairwise different, and so are the available ones, which are
  all tracked.
\<close>

definition pool_consistent :: "CommandBufferPool \<Rightarrow> bool" where
  "pool_consistent s \<longleftrightarrow>
     distinct (available_buffers s) \<and> distinct (all_buffers s) \<and>
     set (available_buffers s) \<subseteq> set (all_buffers s)"

text \<open>A run of the pool: the calls made on it, in order.\<close>

datatype pool_op =
    OpAcquire
  | OpRelease "BufferPtr option"
  | OpExpand nat
  | OpShrink
  | OpPoolTick

fun pool_step :: "pool_op \<Rightarrow> CommandBufferPool \<Rightarrow> CommandBufferPool" where
  "pool_step OpAcquire s = snd (AcquireBuffer s)"
| "pool_step (OpRelease buffer) s = ReleaseBuffer buffer s"
| "pool_step (OpExpand n) s = ExpandPool n s"
| "pool_step OpShrink s = ShrinkPool s"
| "pool_step OpPoolTick s = pool_TickFrame s"

fun pool_run :: "pool_op list \<Rightarrow> CommandBufferPool \<Rightarrow> CommandBufferPool" where
  "pool_run [] s = s"
| "pool_run (op # ops) s = pool_run ops (pool_step op s)"

text \<open>
  A run in which no buffer is handed to \<open>ReleaseBuffer\<close> while it is in the available
  queue, and the states in which every tracked pointer was allocated before.
\<close>

fun no_double_release :: "pool_op list \<Rightarrow> CommandBufferPool \<Rightarrow> bool" where
  "no_double_release [] s = True"
| "no_double_release (OpRelease (Some b) # ops) s =
     (b \<notin> set (available_buffers s) \<and> no_double_release ops (ReleaseBuffer (Some b) s))"
| "no_double_release (op # ops) s = no_double_release ops (pool_step op s)"

definition pool_fresh :: "CommandBufferPool \<Rightarrow> bool" where
  "pool_fresh s \<longleftrightarrow> (\<forall>b \<in> set (all_buffers s). b < next_allocation_id s)"

text \<open>A default pool whose first acquired buffer is released twice.\<close>

definition double_release :: CommandBufferPool where
  "double_release =
     (let (b, s1) = AcquireBuffer (new_CommandBufferPool default_PoolConfig)
      in ReleaseBuffer (Some b) (ReleaseBuffer (Some b) s1))"


section \<open>Float rounding is monotone\<close>

lemma ilog2_lower:
  assumes "0 < x"
  shows "2 powi (ilog2 x) \<le> x"
proof (cases "1 \<le> x")
  case True
  then have n: "0 < \<lfloor>x\<rfloor>" by simp
  have b: "0 \<le> bitlen \<lfloor>x\<rfloor> - 1" using n bitlen_nonneg[of "\<lfloor>x\<rfloor>"] bitlen_eq_zero_iff[of "\<lfloor>x\<rfloor>"] by linarith
  from bitlen_bounds[OF n] have "(2::int) ^ nat (bitlen \<lfloor>x\<rfloor> - 1) \<le> \<lfloor>x\<rfloor>" by simp
  then have "(of_int ((2::int) ^ nat (bitlen \<lfloor>x\<rfloor> - 1)) :: rat) \<le> of_int \<lfloor>x\<rfloor>"
    by (simp only: of_int_le_iff)
  also have "\<dots> \<le> x" by simp
  finally show ?thesis using True b by (simp add: ilog2_def power_int_def)
next
  case False
  then have x1: "x < 1" by simp
  define m where "m = \<lceil>1 / x\<rceil> - 1"
  have "1 < 1 / x" using assms x1 by (simp add: field_simps)
  then have m: "0 < m" unfolding m_def by linarith
  have k: "0 < bitlen m" using m bitlen_nonneg[of m] bitlen_eq_zero_iff[of m] by linarith
  from bitlen_bounds[OF m] have "m < 2 ^ nat (bitlen m)" by simp
  then have "m + 1 \<le> 2 ^ nat (bitlen m)" by simp
  then have "(of_int (m + 1) :: rat) \<le> of_int (2 ^ nat (bitlen m))" by (simp only: of_int_le_iff)
  moreover have "1 / x \<le> of_int (m + 1)" unfolding m_def by simp
  ultimately have "1 / x \<le> 2 ^ nat (bitlen m)" by simp
  then have "1 / 2 ^ nat (bitlen m) \<le> x" using assms by (simp add: field_simps)
  then show ?thesis using False k by (simp add: ilog2_def m_def power_int_def field_simps)
qed

lemma ilog2_upper:
  assumes "0 < x"
  shows "x < 2 powi (ilog2 x + 1)"
proof (cases "1 \<le> x")
  case True
  then have n: "0 < \<lfloor>x\<rfloor>" by simp
  have b: "0 \<le> bitlen \<lfloor>x\<rfloor>" by (rule bitlen_nonneg)
  from bitlen_bounds[OF n] have "\<lfloor>x\<rfloor> + 1 \<le> 2 ^ nat (bitlen \<lfloor>x\<rfloor>)" by simp
  then have "(of_int (\<lfloor>x\<rfloor> + 1) :: rat) \<le> of_int (2 ^ nat (bitlen \<lfloor>x\<rfloor>))" by (simp only: of_int_le_iff)
  moreover have "x < of_int (\<lfloor>x\<rfloor> + 1)" using floor_correct[of x] by blast
  ultimately have "x < 2 ^ nat (bitlen \<lfloor>x\<rfloor>)" by simp
  then show ?thesis using True b by (simp add: ilog2_def power_int_def)
next
  case False
  then have x1: "x < 1" by simp
  define m where "m = \<lceil>1 / x\<rceil> - 1"
  have "1 < 1 / x" using assms x1 by (simp add: field_simps)
  then have m: "0 < m" unfolding m_def by linarith
  have k: "0 < bitlen m" using m bitlen_nonneg[of m] bitlen_eq_zero_iff[of m] by linarith
  from bitlen_bounds[OF m] have "2 ^ nat (bitlen m - 1) \<le> m" by simp
  then have "(2::rat) ^ nat (bitlen m - 1) \<le> of_int m" by simp
  moreover have "of_int m < 1 / x" unfolding m_def by linarith
  ultimately have "2 ^ nat (bitlen m - 1) < 1 / x" by linarith
  then have lt: "x < 1 / 2 ^ nat (bitlen m - 1)" using assms by (simp add: field_simps)
  have "ilog2 x + 1 = - (bitlen m - 1)" using False by (simp add: ilog2_def m_def)
  moreover have "(2::rat) powi (- (bitlen m - 1)) = 1 / 2 ^ nat (bitlen m - 1)"
    using k by (simp add: power_int_def field_simps)
  ultimately show ?thesis using lt by simp
qed

lemma ilog2_mono:
  assumes "0 < x" "x \<le> y"
  shows "ilog2 x \<le> ilog2 y"
proof (rule ccontr)
  assume "\<not> ilog2 x \<le> ilog2 y"
  then have "ilog2 y + 1 \<le> ilog2 x" by simp
  then have "(2::rat) powi (ilog2 y + 1) \<le> 2 powi (ilog2 x)" by (intro power_int_increasing) simp_all
  moreover have "y < 2 powi (ilog2 y + 1)" using assms by (intro ilog2_upper) simp
  moreover have "2 powi (ilog2 x) \<le> x" using assms by (intro ilog2_lower)
  ultimately show False using assms by linarith
qed

lemma round_half_even_of_int: "round_half_even (of_int n) = n"
  by (simp add: round_half_even_def)

lemma round_half_even_mono:
  assumes "x \<le> y"
  shows "round_half_even x \<le> round_half_even y"
proof -
  have f: "\<lfloor>x\<rfloor> \<le> \<lfloor>y\<rfloor>" using assms by (rule floor_mono)
  have lx: "round_half_even x \<le> \<lfloor>x\<rfloor> + 1" and ly: "\<lfloor>y\<rfloor> \<le> round_half_even y"
    by (simp_all add: round_half_even_def Let_def)
  show ?thesis
  proof (cases "\<lfloor>x\<rfloor> = \<lfloor>y\<rfloor>")
    case True
    then show ?thesis using assms by (auto simp: round_half_even_def Let_def)
  next
    case False
    then have "\<lfloor>x\<rfloor> + 1 \<le> \<lfloor>y\<rfloor>" using f by simp
    then show ?thesis using lx ly by linarith
  qed
qed

lemma f32_round_nonneg: "0 \<le> f32_round x"
proof (cases "x \<le> 0")
  case True then show ?thesis by (simp add: f32_round_def)
next
  case False
  then have x: "0 < x" by simp
  have "0 \<le> x / 2 powi (ilog2 x - 23)" using x by simp
  then have "round_half_even 0 \<le> round_half_even (x / 2 powi (ilog2 x - 23))"
    by (rule round_half_even_mono)
  then have "0 \<le> round_half_even (x / 2 powi (ilog2 x - 23))"
    using round_half_even_of_int[of 0] by simp
  then show ?thesis using False by (simp add: f32_round_def Let_def)
qed

lemma f32_round_lower:
  assumes "0 < x"
  shows "2 powi (ilog2 x) \<le> f32_round x"
proof -
  define u :: rat where "u = 2 powi (ilog2 x - 23)"
  have u: "0 < u" by (simp add: u_def)
  have e: "(2::rat) powi (ilog2 x) = 2 ^ 23 * u"
    by (simp add: u_def power_int_diff)
  have "2 ^ 23 * u \<le> x" using ilog2_lower[OF assms] e by simp
  then have "of_int (2 ^ 23) \<le> x / u" using u by (simp add: field_simps)
  then have "round_half_even (of_int (2 ^ 23)) \<le> round_half_even (x / u)"
    by (rule round_half_even_mono)
  then have "2 ^ 23 \<le> round_half_even (x / u)" by (simp only: round_half_even_of_int)
  then have "(of_int (2 ^ 23) :: rat) \<le> of_int (round_half_even (x / u))"
    by (simp only: of_int_le_iff)
  then have "2 ^ 23 * u \<le> of_int (round_half_even (x / u)) * u" using u by simp
  then show ?thesis using assms e by (simp add: f32_round_def Let_def u_def)
qed

lemma f32_round_upper:
  assumes "0 < x"
  shows "f32_round x \<le> 2 powi (ilog2 x + 1)"
proof -
  define u :: rat where "u = 2 powi (ilog2 x - 23)"
  have u: "0 < u" by (simp add: u_def)
  have e: "(2::rat) powi (ilog2 x + 1) = 2 ^ 24 * u"
    by (simp add: u_def power_int_diff power_int_add)
  have "x \<le> 2 ^ 24 * u" using ilog2_upper[OF assms] e by simp
  then have "x / u \<le> of_int (2 ^ 24)" using u by (simp add: field_simps)
  then have "round_half_even (x / u) \<le> round_half_even (of_int (2 ^ 24))"
    by (rule round_half_even_mono)
  then have "round_half_even (x / u) \<le> 2 ^ 24" by (simp only: round_half_even_of_int)
  then have "(of_int (round_half_even (x / u)) :: rat) \<le> of_int (2 ^ 24)"
    by (simp only: of_int_le_iff)
  then have "of_int (round_half_even (x / u)) * u \<le> 2 ^ 24 * u" using u by simp
  then show ?thesis using assms e by (simp add: f32_round_def Let_def u_def)
qed

lemma f32_round_mono:
  assumes "x \<le> y"
  shows "f32_round x \<le> f32_round y"
proof (cases "x \<le> 0")
  case True
  then show ?thesis using f32_round_nonneg[of y] by (simp add: f32_round_def)
next
  case False
  then have x: "0 < x" and y: "0 < y" using assms by simp_all
  have le: "ilog2 x \<le> ilog2 y" using x assms by (rule ilog2_mono)
  show ?thesis
  proof (cases "ilog2 x = ilog2 y")
    case True
    define u :: rat where "u = 2 powi (ilog2 x - 23)"
    have u: "0 < u" by (simp add: u_def)
    have "x / u \<le> y / u" using assms u by (simp add: divide_right_mono)
    then have "round_half_even (x / u) \<le> round_half_even (y / u)" by (rule round_half_even_mono)
    then have "(of_int (round_half_even (x / u)) :: rat) \<le> of_int (round_half_even (y / u))"
      by (simp only: of_int_le_iff)
    then have "of_int (round_half_even (x / u)) * u \<le> of_int (round_half_even (y / u)) * u"
      using u by simp
    then show ?thesis using x y True by (simp add: f32_round_def Let_def u_def)
  next
    case False
    then have "ilog2 x + 1 \<le> ilog2 y" using le by simp
    then have "(2::rat) powi (ilog2 x + 1) \<le> 2 powi (ilog2 y)" by (intro power_int_increasing) simp_all
    then show ?thesis using f32_round_upper[OF x] f32_round_lower[OF y] by linarith
  qed
qed

lemma f32_ge_Fin_mono: "x \<le> y \<Longrightarrow> f32_ge (Fin x) t \<Longrightarrow> f32_ge (Fin y) t"
  by (cases t) auto

lemma f32_of_u64_mono:
  assumes "a \<le> b"
  shows "\<exists>x y. f32_of_u64 a = Fin x \<and> f32_of_u64 b = Fin y \<and> 0 \<le> x \<and> x \<le> y"
proof -
  have "uint a \<le> uint b" using assms by (simp add: word_le_def)
  then have "(of_int (uint a) :: rat) \<le> of_int (uint b)" by (simp only: of_int_le_iff)
  then have "f32_round (of_int (uint a)) \<le> f32_round (of_int (uint b))" by (rule f32_round_mono)
  then show ?thesis unfolding f32_of_u64_def using f32_round_nonneg by blast
qed

lemma usage_quotient_mono:
  assumes "0 \<le> x" "x \<le> y" "f32_ge (f32_div (Fin x) (Fin c)) t"
  shows "f32_ge (f32_div (Fin y) (Fin c)) t"
proof (cases "c = 0")
  case True
  then show ?thesis using assms by (cases t) (auto split: if_splits)
next
  case False
  have c: "0 \<le> c \<Longrightarrow> x / c \<le> y / c" using assms by (simp add: divide_right_mono)
  show ?thesis
  proof (cases "0 \<le> c")
    case True
    then have "f32_round (x / c) \<le> f32_round (y / c)" using c by (intro f32_round_mono) simp
    then show ?thesis using assms False by (auto intro: f32_ge_Fin_mono)
  next
    case neg: False
    then have "x / c \<le> 0" using assms by (simp add: divide_nonneg_neg)
    then have "f32_round (x / c) = 0" by (simp add: f32_round_def)
    then have "f32_round (x / c) \<le> f32_round (y / c)" by (simp add: f32_round_nonneg)
    then show ?thesis using assms False by (auto intro: f32_ge_Fin_mono)
  qed
qed

lemma GetUsagePercentage_mono:
  assumes "a \<le> b" "f32_ge (GetUsagePercentage (s\<lparr>current_usage := a\<rparr>)) t"
  shows "f32_ge (GetUsagePercentage (s\<lparr>current_usage := b\<rparr>)) t"
proof -
  obtain x y where xy: "f32_of_u64 a = Fin x" "f32_of_u64 b = Fin y" "0 \<le> x" "x \<le> y"
    using f32_of_u64_mono[OF assms(1)] by blast
  obtain c where c: "f32_of_u64 (vram_cap_bytes (config s)) = Fin c"
    by (simp add: f32_of_u64_def)
  show ?thesis using assms(2) xy c usage_quotient_mono[of x y c t]
    by (simp add: GetUsagePercentage_def)
qed

section \<open>The budget controller\<close>

lemma upt_add_Suc: "[i..<Suc (i + n)] = i # [Suc i..<Suc (i + n)]"
  by (subst upt_conv_Cons) simp_all

lemma run_cleanup_callbacks_calls:
  "snd (snd (run_cleanup_callbacks cbs i (tf, w, tr))) = tr @ map CleanupCall [i..<i + length cbs]"
proof (induction cbs arbitrary: i tf w tr)
  case Nil
  then show ?case by simp
next
  case (Cons cb cbs)
  obtain freed w' where cb: "cb w = (freed, w')" by (cases "cb w")
  show ?case using Cons[of "Suc i" "tf + freed" w' "tr @ [CleanupCall i]"] cb
    by (simp add: upt_add_Suc del: upt_Suc)
qed

lemma run_emergency_callbacks_calls:
  "snd (run_emergency_callbacks cbs i (w, tr)) = tr @ map EmergencyCall [i..<i + length cbs]"
proof (induction cbs arbitrary: i w tr)
  case Nil
  then show ?case by simp
next
  case (Cons cb cbs)
  show ?case using Cons[of "Suc i" "cb w" "tr @ [EmergencyCall i]"]
    by (simp add: upt_add_Suc del: upt_Suc)
qed

lemma ExecuteCleanup_closed:
  "current_frame s - last_cleanup_frame s < 60 \<Longrightarrow> ExecuteCleanup s = s"
  by (simp add: ExecuteCleanup_def)

lemma ExecuteCleanup_disabled:
  "\<not> enable_auto_cleanup (config s) \<Longrightarrow> ExecuteCleanup s = s"
  by (simp add: ExecuteCleanup_def)

lemma ExecuteCleanup_open:
  assumes "enable_auto_cleanup (config s)" "60 \<le> current_frame s - last_cleanup_frame s"
  shows "ExecuteCleanup s =
    s\<lparr>host := fst (snd (run_cleanup_callbacks (cleanup_callbacks s) 0 (0, host s, calls s))),
      calls := calls s @ map CleanupCall [0..<length (cleanup_callbacks s)],
      cleanup_count := cleanup_count s + 1,
      total_bytes_freed := total_bytes_freed s
         + fst (run_cleanup_callbacks (cleanup_callbacks s) 0 (0, host s, calls s)),
      last_cleanup_frame := current_frame s\<rparr>"
proof -
  have "\<not> current_frame s - last_cleanup_frame s < 60" using assms(2) by (simp add: not_less)
  then show ?thesis
    using assms(1) run_cleanup_callbacks_calls[of "cleanup_callbacks s" 0 0 "host s" "calls s"]
    by (simp add: ExecuteCleanup_def case_prod_beta)
qed

lemma ExecuteCleanup_calls:
  "calls (ExecuteCleanup s) = calls s @
     (if enable_auto_cleanup (config s) \<and> 60 \<le> current_frame s - last_cleanup_frame s
      then map CleanupCall [0..<length (cleanup_callbacks s)] else [])"
proof (cases "enable_auto_cleanup (config s) \<and> 60 \<le> current_frame s - last_cleanup_frame s")
  case True
  then show ?thesis by (simp add: ExecuteCleanup_open)
next
  case False
  then have "ExecuteCleanup s = s"
    by (auto simp: ExecuteCleanup_disabled ExecuteCleanup_closed not_le)
  then show ?thesis using False by auto
qed

lemma ExecuteCleanup_frame [simp]:
  "current_frame (ExecuteCleanup s) = current_frame s"
  "config (ExecuteCleanup s) = config s"
  "cleanup_callbacks (ExecuteCleanup s) = cleanup_callbacks s"
  "emergency_callbacks (ExecuteCleanup s) = emergency_callbacks s"
  "last_emergency_frame (ExecuteCleanup s) = last_emergency_frame s"
  "emergency_purge_count (ExecuteCleanup s) = emergency_purge_count s"
  "current_usage (ExecuteCleanup s) = current_usage s"
  by (simp_all add: ExecuteCleanup_def case_prod_beta)

lemma ExecuteEmergencyPurge_closed:
  "current_frame s - last_emergency_frame s < 120 \<Longrightarrow> ExecuteEmergencyPurge s = s"
  by (simp add: ExecuteEmergencyPurge_def)

lemma ExecuteEmergencyPurge_disabled:
  "\<not> enable_emergency_purge (config s) \<Longrightarrow> ExecuteEmergencyPurge s = s"
  by (simp add: ExecuteEmergencyPurge_def)

lemma ExecuteEmergencyPurge_open:
  assumes "enable_emergency_purge (config s)" "120 \<le> current_frame s - last_emergency_frame s"
  shows "ExecuteEmergencyPurge s =
    (ExecuteCleanup
       (s\<lparr>host := fst (run_emergency_callbacks (emergency_callbacks s) 0 (host s, calls s)),
          calls := calls s @ map EmergencyCall [0..<length (emergency_callbacks s)]\<rparr>))
     \<lparr>emergency_purge_count := emergency_purge_count s + 1,
      last_emergency_frame := current_frame s\<rparr>"
proof -
  have "\<not> current_frame s - last_emergency_frame s < 120" using assms(2) by (simp add: not_less)
  then show ?thesis
    using assms(1) run_emergency_callbacks_calls[of "emergency_callbacks s" 0 "host s" "calls s"]
    by (simp add: ExecuteEmergencyPurge_def case_prod_beta Let_def)
qed

lemma ExecuteEmergencyPurge_calls:
  "calls (ExecuteEmergencyPurge s) = calls s @
     (if enable_emergency_purge (config s) \<and> 120 \<le> current_frame s - last_emergency_frame s
      then map EmergencyCall [0..<length (emergency_callbacks s)] @
           (if enable_auto_cleanup (config s) \<and> 60 \<le> current_frame s - last_cleanup_frame s
            then map CleanupCall [0..<length (cleanup_callbacks s)] else [])
      else [])"
proof (cases "enable_emergency_purge (config s) \<and> 120 \<le> current_frame s - last_emergency_frame s")
  case True
  then show ?thesis by (simp add: ExecuteEmergencyPurge_open ExecuteCleanup_calls)
next
  case False
  then have "ExecuteEmergencyPurge s = s"
    by (auto simp: ExecuteEmergencyPurge_disabled ExecuteEmergencyPurge_closed not_le)
  then show ?thesis using False by auto
qed

lemma filter_cleanup_emergency [simp]:
  "filter is_cleanup_call (map EmergencyCall ns) = []"
  by (induction ns) simp_all

lemma view_ExecuteCleanup:
  "current_frame s - last_cleanup_frame s < 60 \<Longrightarrow> cleanup_view (ExecuteCleanup s) = cleanup_view s"
  by (simp add: ExecuteCleanup_closed)

lemma view_ExecuteEmergencyPurge:
  assumes "current_frame s - last_cleanup_frame s < 60"
  shows "cleanup_view (ExecuteEmergencyPurge s) = cleanup_view s"
proof (cases "enable_emergency_purge (config s) \<and> 120 \<le> current_frame s - last_emergency_frame s")
  case True
  define s' where "s' = s\<lparr>host := fst (run_emergency_callbacks (emergency_callbacks s) 0 (host s, calls s)),
          calls := calls s @ map EmergencyCall [0..<length (emergency_callbacks s)]\<rparr>"
  have "ExecuteCleanup s' = s'" using assms by (intro ExecuteCleanup_closed) (simp add: s'_def)
  then have "ExecuteEmergencyPurge s = s'\<lparr>emergency_purge_count := emergency_purge_count s + 1,
      last_emergency_frame := current_frame s\<rparr>"
    using True by (simp add: ExecuteEmergencyPurge_open s'_def)
  then show ?thesis by (simp add: cleanup_view_def s'_def)
next
  case False
  then have "ExecuteEmergencyPurge s = s"
    by (auto simp: ExecuteEmergencyPurge_disabled ExecuteEmergencyPurge_closed not_le)
  then show ?thesis by simp
qed

lemma closed_from_view:
  "cleanup_view t = cleanup_view s \<Longrightarrow> current_frame s - last_cleanup_frame s < 60
     \<Longrightarrow> current_frame t - last_cleanup_frame t < 60"
  by (simp add: cleanup_view_def)

lemma view_HandlePressureChange:
  assumes "current_frame s - last_cleanup_frame s < 60"
  shows "cleanup_view (HandlePressureChange p s) = cleanup_view s"
  using assms by (simp add: HandlePressureChange_def Let_def ExecuteCleanup_closed view_ExecuteEmergencyPurge)

lemma view_UpdateUsage:
  assumes "current_frame s - last_cleanup_frame s < 60"
  shows "cleanup_view (UpdateUsage b s) = cleanup_view s"
proof -
  define s2 where "s2 = (if peak_usage (s\<lparr>current_usage := b\<rparr>) < current_usage (s\<lparr>current_usage := b\<rparr>)
       then s\<lparr>current_usage := b\<rparr>\<lparr>peak_usage := current_usage (s\<lparr>current_usage := b\<rparr>)\<rparr>
       else s\<lparr>current_usage := b\<rparr>)"
  define s3 where "s3 = (if CalculatePressure s2 \<noteq> last_pressure s2
       then (HandlePressureChange (CalculatePressure s2) s2)\<lparr>last_pressure := CalculatePressure s2\<rparr>
       else s2)"
  define s4 where "s4 = (if ShouldCleanup s3 then ExecuteCleanup s3 else s3)"
  have v2: "cleanup_view s2 = cleanup_view s" by (simp add: s2_def cleanup_view_def)
  then have c2: "current_frame s2 - last_cleanup_frame s2 < 60" using assms by (rule closed_from_view)
  have v3: "cleanup_view s3 = cleanup_view s2"
    using view_HandlePressureChange[OF c2] by (simp add: s3_def cleanup_view_def)
  then have c3: "current_frame s3 - last_cleanup_frame s3 < 60" using c2 by (rule closed_from_view)
  have v4: "cleanup_view s4 = cleanup_view s3" using c3 by (simp add: s4_def ExecuteCleanup_closed)
  then have c4: "current_frame s4 - last_cleanup_frame s4 < 60" using c3 by (rule closed_from_view)
  have "UpdateUsage b s = (if ShouldEmergencyPurge s4 then ExecuteEmergencyPurge s4 else s4)"
    by (simp add: UpdateUsage_def Let_def s4_def s3_def s2_def)
  then have "cleanup_view (UpdateUsage b s) = cleanup_view s4"
    using view_ExecuteEmergencyPurge[OF c4] by simp
  then show ?thesis using v4 v3 v2 by simp
qed

lemma view_vram_step:
  assumes "current_frame s - last_cleanup_frame s < 60" "\<not> is_tick op"
  shows "cleanup_view (vram_step op s) = cleanup_view s"
proof (cases op)
  case (OpUpdateUsage b)
  then show ?thesis using assms by (simp add: view_UpdateUsage)
next
  case OpTickFrame
  then show ?thesis using assms by simp
next
  case OpRequestCleanup
  then show ?thesis using assms by (simp add: RequestCleanup_def ExecuteCleanup_closed)
next
  case OpForceEmergencyPurge
  then show ?thesis using assms by (simp add: ForceEmergencyPurge_def view_ExecuteEmergencyPurge)
next
  case (OpRegisterCleanupCallback cb)
  then show ?thesis by (simp add: RegisterCleanupCallback_def cleanup_view_def)
next
  case (OpRegisterEmergencyCallback cb)
  then show ?thesis by (simp add: RegisterEmergencyCallback_def cleanup_view_def)
qed

lemma view_vram_run:
  assumes "unat (current_frame s - last_cleanup_frame s) + length (filter is_tick ops) < 60"
  shows "snd (cleanup_view (vram_run ops s)) = snd (cleanup_view s)"
  using assms
proof (induction ops arbitrary: s)
  case Nil
  then show ?case by simp
next
  case (Cons op ops)
  have closed: "current_frame s - last_cleanup_frame s < 60"
    using Cons.prems by (simp add: word_less_nat_alt)
  show ?case
  proof (cases "is_tick op")
    case True
    then have op: "op = OpTickFrame" by (cases op) simp_all
    have u: "unat (current_frame s + 1 - last_cleanup_frame s) = unat (current_frame s - last_cleanup_frame s) + 1"
    proof -
      have "current_frame s + 1 - last_cleanup_frame s = (current_frame s - last_cleanup_frame s) + 1"
        by simp
      moreover have "unat ((current_frame s - last_cleanup_frame s) + 1) = unat (current_frame s - last_cleanup_frame s) + 1"
        using closed by (simp add: unat_word_ariths word_less_nat_alt)
      ultimately show ?thesis by (simp only:)
    qed
    have "snd (cleanup_view (vram_run ops (TickFrame s))) = snd (cleanup_view (TickFrame s))"
      using Cons.prems True u by (intro Cons.IH) (simp add: TickFrame_def)
    then show ?thesis using op by (simp add: TickFrame_def cleanup_view_def)
  next
    case False
    have v: "cleanup_view (vram_step op s) = cleanup_view s"
      using closed False by (rule view_vram_step)
    then have "unat (current_frame (vram_step op s) - last_cleanup_frame (vram_step op s))
        = unat (current_frame s - last_cleanup_frame s)"
      by (simp add: cleanup_view_def)
    then have "snd (cleanup_view (vram_run ops (vram_step op s))) = snd (cleanup_view (vram_step op s))"
      using Cons.prems False by (intro Cons.IH) simp
    then show ?thesis using v by simp
  qed
qed

lemma CalculatePressure_cong:
  "config s = config t \<Longrightarrow> current_usage s = current_usage t \<Longrightarrow> CalculatePressure s = CalculatePressure t"
  by (simp add: CalculatePressure_def GetUsagePercentage_def Let_def cong: if_cong)

lemma MidRange_800:
  "CalculatePressure ((new_VRAMManager (GetRecommendedConfig MidRange) ())\<lparr>current_usage := MiB 800\<rparr>) = None_Pressure"
  by code_simp

lemma MidRange_1300:
  "CalculatePressure ((new_VRAMManager (GetRecommendedConfig MidRange) ())\<lparr>current_usage := MiB 1300\<rparr>) = Medium"
  by code_simp

lemma MidRange_1470:
  "CalculatePressure ((new_VRAMManager (GetRecommendedConfig MidRange) ())\<lparr>current_usage := MiB 1470\<rparr>) = Critical"
  by code_simp

lemma MidRange_pressure:
  assumes "config s = GetRecommendedConfig MidRange"
  shows "current_usage s = MiB 800 \<Longrightarrow> CalculatePressure s = None_Pressure"
    and "current_usage s = MiB 1300 \<Longrightarrow> CalculatePressure s = Medium"
    and "current_usage s = MiB 1470 \<Longrightarrow> CalculatePressure s = Critical"
  using assms MidRange_800 MidRange_1300 MidRange_1470
    CalculatePressure_cong[of s "(new_VRAMManager (GetRecommendedConfig MidRange) ())\<lparr>current_usage := MiB 800\<rparr>"]
    CalculatePressure_cong[of s "(new_VRAMManager (GetRecommendedConfig MidRange) ())\<lparr>current_usage := MiB 1300\<rparr>"]
    CalculatePressure_cong[of s "(new_VRAMManager (GetRecommendedConfig MidRange) ())\<lparr>current_usage := MiB 1470\<rparr>"]
  by (simp_all add: new_VRAMManager_def)

lemma MidRange_thresholds:
  "cleanup_threshold_bytes (GetRecommendedConfig MidRange) = MiB 1280"
  "emergency_threshold_bytes (GetRecommendedConfig MidRange) = MiB 1460"
  "enable_auto_cleanup (GetRecommendedConfig MidRange)"
  "enable_emergency_purge (GetRecommendedConfig MidRange)"
  by (simp_all add: default_Config_def int_to_u64_def MiB_def)

lemma MiB_order:
  "\<not> MiB 1280 \<le> MiB 800" "\<not> MiB 1460 \<le> MiB 800"
  "MiB 1280 \<le> MiB 1300" "\<not> MiB 1460 \<le> MiB 1300"
  "MiB 1280 \<le> MiB 1470" "MiB 1460 \<le> MiB 1470"
  by (simp_all add: MiB_def)

lemma frame_facts:
  fixes F :: u32
  assumes "118 \<le> F" "F \<le> 0xFFFFFFFD"
  shows "60 \<le> F + 1" and "120 \<le> F + 1 + 1"
proof -
  have lo: "118 \<le> unat F" using assms(1) by (simp add: word_le_nat_alt)
  have hi: "unat F \<le> 4294967293" using assms(2) by (simp add: word_le_nat_alt)
  have u1: "unat (F + 1) = unat F + 1" using hi by (simp add: unat_word_ariths)
  have u2: "unat (F + 1 + 1) = unat F + 2" using hi by (simp add: unat_word_ariths)
  show "60 \<le> F + 1" using lo u1 by (simp add: word_le_nat_alt)
  show "120 \<le> F + 1 + 1" using lo u2 by (simp add: word_le_nat_alt)
qed

lemma UpdateUsage_eq:
  assumes "s2 = s\<lparr>current_usage := b, peak_usage := (if peak_usage s < b then b else peak_usage s)\<rparr>"
      and "s3 = (if CalculatePressure s2 \<noteq> last_pressure s2
                 then (HandlePressureChange (CalculatePressure s2) s2)\<lparr>last_pressure := CalculatePressure s2\<rparr>
                 else s2)"
      and "s4 = (if ShouldCleanup s3 then ExecuteCleanup s3 else s3)"
  shows "UpdateUsage b s = (if ShouldEmergencyPurge s4 then ExecuteEmergencyPurge s4 else s4)"
  by (simp add: assms UpdateUsage_def Let_def)

lemma UpdateUsage_800:
  assumes cfg: "config s = GetRecommendedConfig MidRange"
  shows "UpdateUsage (MiB 800) s =
     s\<lparr>current_usage := MiB 800,
       peak_usage := (if peak_usage s < MiB 800 then MiB 800 else peak_usage s),
       last_pressure := None_Pressure\<rparr>"
proof -
  define s2 where "s2 = s\<lparr>current_usage := MiB 800,
       peak_usage := (if peak_usage s < MiB 800 then MiB 800 else peak_usage s)\<rparr>"
  define s3 where "s3 = s2\<lparr>last_pressure := None_Pressure\<rparr>"
  have c2: "config s2 = GetRecommendedConfig MidRange" "current_usage s2 = MiB 800"
    by (simp_all add: s2_def cfg del: GetRecommendedConfig.simps)
  have p: "CalculatePressure s2 = None_Pressure" using c2 by (rule MidRange_pressure)
  have h: "HandlePressureChange None_Pressure s2 = s2" by (simp add: HandlePressureChange_def)
  have e3: "s3 = (if CalculatePressure s2 \<noteq> last_pressure s2
                 then (HandlePressureChange (CalculatePressure s2) s2)\<lparr>last_pressure := CalculatePressure s2\<rparr>
                 else s2)"
    by (cases "last_pressure s2 = None_Pressure") (auto simp: p h s3_def)
  have c3: "config s3 = GetRecommendedConfig MidRange" "current_usage s3 = MiB 800"
    using c2 by (simp_all add: s3_def del: GetRecommendedConfig.simps)
  have nc: "\<not> ShouldCleanup s3"
    by (simp add: ShouldCleanup_def c3 MidRange_thresholds MiB_order del: GetRecommendedConfig.simps)
  have ne: "\<not> ShouldEmergencyPurge s3"
    by (simp add: ShouldEmergencyPurge_def c3 MidRange_thresholds MiB_order del: GetRecommendedConfig.simps)
  have e4: "s3 = (if ShouldCleanup s3 then ExecuteCleanup s3 else s3)" using nc by simp
  have "UpdateUsage (MiB 800) s = (if ShouldEmergencyPurge s3 then ExecuteEmergencyPurge s3 else s3)"
    using s2_def e3 e4 by (rule UpdateUsage_eq)
  then show ?thesis using ne by (simp add: s3_def s2_def)
qed

lemma UpdateUsage_1300:
  assumes cfg: "config s = GetRecommendedConfig MidRange"
      and lp: "last_pressure s = None_Pressure"
      and gate: "60 \<le> current_frame s - last_cleanup_frame s"
  shows "UpdateUsage (MiB 1300) s =
     s\<lparr>current_usage := MiB 1300,
       peak_usage := (if peak_usage s < MiB 1300 then MiB 1300 else peak_usage s),
       last_pressure := Medium,
       host := fst (snd (run_cleanup_callbacks (cleanup_callbacks s) 0 (0, host s, calls s))),
       calls := calls s @ map CleanupCall [0..<length (cleanup_callbacks s)],
       cleanup_count := cleanup_count s + 1,
       total_bytes_freed := total_bytes_freed s
          + fst (run_cleanup_callbacks (cleanup_callbacks s) 0 (0, host s, calls s)),
       last_cleanup_frame := current_frame s\<rparr>"
proof -
  define s2 where "s2 = s\<lparr>current_usage := MiB 1300,
       peak_usage := (if peak_usage s < MiB 1300 then MiB 1300 else peak_usage s)\<rparr>"
  define s3 where "s3 = s2\<lparr>last_pressure := Medium\<rparr>"
  define s4 where "s4 = ExecuteCleanup s3"
  have c2: "config s2 = GetRecommendedConfig MidRange" "current_usage s2 = MiB 1300"
    by (simp_all add: s2_def cfg del: GetRecommendedConfig.simps)
  have p: "CalculatePressure s2 = Medium" using c2 by (rule MidRange_pressure)
  have h: "HandlePressureChange Medium s2 = s2" by (simp add: HandlePressureChange_def)
  have e3: "s3 = (if CalculatePressure s2 \<noteq> last_pressure s2
                 then (HandlePressureChange (CalculatePressure s2) s2)\<lparr>last_pressure := CalculatePressure s2\<rparr>
                 else s2)"
  proof -
    have "last_pressure s2 = None_Pressure" using lp by (simp add: s2_def)
    then show ?thesis by (simp add: p h s3_def)
  qed
  have c3: "config s3 = GetRecommendedConfig MidRange" "current_usage s3 = MiB 1300"
    using c2 by (simp_all add: s3_def del: GetRecommendedConfig.simps)
  have g3: "60 \<le> current_frame s3 - last_cleanup_frame s3" using gate by (simp add: s3_def s2_def)
  have sc: "ShouldCleanup s3"
    using g3 by (simp add: ShouldCleanup_def c3 MidRange_thresholds MiB_order del: GetRecommendedConfig.simps)
  have e4: "s4 = (if ShouldCleanup s3 then ExecuteCleanup s3 else s3)" using sc by (simp add: s4_def)
  have c4: "config s4 = GetRecommendedConfig MidRange" "current_usage s4 = MiB 1300"
    using c3 by (simp_all add: s4_def del: GetRecommendedConfig.simps)
  have ne: "\<not> ShouldEmergencyPurge s4"
    by (simp add: ShouldEmergencyPurge_def c4 MidRange_thresholds MiB_order del: GetRecommendedConfig.simps)
  have "UpdateUsage (MiB 1300) s = (if ShouldEmergencyPurge s4 then ExecuteEmergencyPurge s4 else s4)"
    using s2_def e3 e4 by (rule UpdateUsage_eq)
  then have "UpdateUsage (MiB 1300) s = ExecuteCleanup s3" using ne by (simp add: s4_def)
  moreover have "enable_auto_cleanup (config s3)"
    by (simp add: c3 MidRange_thresholds del: GetRecommendedConfig.simps)
  ultimately show ?thesis using g3 by (simp add: ExecuteCleanup_open) (simp add: s3_def s2_def)
qed

lemma UpdateUsage_1470:
  assumes cfg: "config s = GetRecommendedConfig MidRange"
      and lp: "last_pressure s = Medium"
      and cgate: "current_frame s - last_cleanup_frame s < 60"
      and egate: "120 \<le> current_frame s - last_emergency_frame s"
  shows "UpdateUsage (MiB 1470) s =
     s\<lparr>current_usage := MiB 1470,
       peak_usage := (if peak_usage s < MiB 1470 then MiB 1470 else peak_usage s),
       host := fst (run_emergency_callbacks (emergency_callbacks s) 0 (host s, calls s)),
       calls := calls s @ map EmergencyCall [0..<length (emergency_callbacks s)],
       emergency_purge_count := emergency_purge_count s + 1,
       last_emergency_frame := current_frame s,
       last_pressure := Critical\<rparr>"
proof -
  define s2 where "s2 = s\<lparr>current_usage := MiB 1470,
       peak_usage := (if peak_usage s < MiB 1470 then MiB 1470 else peak_usage s)\<rparr>"
  define s2' where "s2' = s2\<lparr>host := fst (run_emergency_callbacks (emergency_callbacks s) 0 (host s, calls s)),
       calls := calls s @ map EmergencyCall [0..<length (emergency_callbacks s)]\<rparr>"
  define s3 where "s3 = s2'\<lparr>emergency_purge_count := emergency_purge_count s + 1,
       last_emergency_frame := current_frame s, last_pressure := Critical\<rparr>"
  have c2: "config s2 = GetRecommendedConfig MidRange" "current_usage s2 = MiB 1470"
    by (simp_all add: s2_def cfg del: GetRecommendedConfig.simps)
  have p: "CalculatePressure s2 = Critical" using c2 by (rule MidRange_pressure)
  have cl2: "ExecuteCleanup s2 = s2" using cgate by (intro ExecuteCleanup_closed) (simp add: s2_def)
  have cl2': "ExecuteCleanup s2' = s2'"
    using cgate by (intro ExecuteCleanup_closed) (simp add: s2'_def s2_def)
  have en: "enable_emergency_purge (config s2)"
    by (simp add: c2 MidRange_thresholds del: GetRecommendedConfig.simps)
  have eg2: "120 \<le> current_frame s2 - last_emergency_frame s2" using egate by (simp add: s2_def)
  have ep: "ExecuteEmergencyPurge s2 = s2'\<lparr>emergency_purge_count := emergency_purge_count s + 1,
       last_emergency_frame := current_frame s\<rparr>"
    using cl2' by (simp add: ExecuteEmergencyPurge_open[OF en eg2]) (simp add: s2'_def s2_def)
  have h: "HandlePressureChange Critical s2 = s2'\<lparr>emergency_purge_count := emergency_purge_count s + 1,
       last_emergency_frame := current_frame s\<rparr>"
    by (simp add: HandlePressureChange_def cl2 ep)
  have e3: "s3 = (if CalculatePressure s2 \<noteq> last_pressure s2
                 then (HandlePressureChange (CalculatePressure s2) s2)\<lparr>last_pressure := CalculatePressure s2\<rparr>
                 else s2)"
  proof -
    have "last_pressure s2 = Medium" using lp by (simp add: s2_def)
    then show ?thesis by (simp add: p h s3_def)
  qed
  have nc: "\<not> ShouldCleanup s3"
    using cgate by (simp add: ShouldCleanup_def s3_def s2'_def s2_def not_le)
  have e4: "s3 = (if ShouldCleanup s3 then ExecuteCleanup s3 else s3)" using nc by simp
  have ne: "\<not> ShouldEmergencyPurge s3"
    by (simp add: ShouldEmergencyPurge_def s3_def s2'_def s2_def)
  have "UpdateUsage (MiB 1470) s = (if ShouldEmergencyPurge s3 then ExecuteEmergencyPurge s3 else s3)"
    using s2_def e3 e4 by (rule UpdateUsage_eq)
  then show ?thesis using ne by (simp add: s3_def s2'_def s2_def)
qed

lemma TickFrame_funpow:
  "(TickFrame ^^ n) s = s\<lparr>current_frame := current_frame s + of_nat n\<rparr>"
  by (induction n) (simp_all add: TickFrame_def add.assoc)

lemma warm_midrange_fields:
  "config warm_midrange = GetRecommendedConfig MidRange"
  "current_frame warm_midrange = 200"
  "last_cleanup_frame warm_midrange = 0"
  "last_emergency_frame warm_midrange = 0"
  "calls warm_midrange = []"
  "cleanup_count warm_midrange = 0"
  "emergency_purge_count warm_midrange = 0"
  "length (cleanup_callbacks warm_midrange) = 1"
  "length (emergency_callbacks warm_midrange) = 1"
  by (simp_all add: warm_midrange_def TickFrame_funpow fresh_midrange_def
        RegisterEmergencyCallback_def RegisterCleanupCallback_def new_VRAMManager_def
      del: GetRecommendedConfig.simps)

section \<open>Claims about the budget controller\<close>

text \<open>
  C1. A freshly constructed controller with the \<open>MidRange\<close> preset that is fed 800, 1300
  and 1470 MiB on three consecutive frames is claimed to run exactly one cleanup at the
  1300 MiB step and exactly one emergency purge at the 1470 MiB step, each with a cleanup
  pass. On the fresh controller the frame counter and both last-action frames are 0, so
  fewer than 60 (and 120) frames have elapsed and both gates are closed: nothing is
  invoked and both counters stay 0.
\<close>

theorem fresh_midrange_sequence_triggers_nothing:
  "(let (s1, s2, s3) = usage_sequence (MiB 800) (MiB 1300) (MiB 1470) fresh_midrange
    in cleanup_count s2 = 0 \<and> cleanup_count s3 = 0 \<and> emergency_purge_count s3 = 0 \<and> calls s3 = [])"
  by code_simp

text \<open>
  C1, amended. With no cleanup or purge recorded (both last-action frames 0) and the frame
  counter at 118 or more at the first update, so that the 1300 MiB step falls on a frame
  \<open>\<ge> 60\<close> and the 1470 MiB step on a frame \<open>\<ge> 120\<close>: the 800 MiB step invokes nothing,
  the 1300 MiB step runs exactly one cleanup (every cleanup callback once, in registration
  order), and the 1470 MiB step runs exactly one emergency purge (every emergency callback
  once). The purge's own cleanup pass is skipped, because the cleanup ran one frame earlier
  and the 60-frame gate of \<open>ExecuteCleanup\<close> is closed: the cleanup counter stays at one.
\<close>

theorem midrange_sequence_after_warmup:
  assumes cfg: "config s = GetRecommendedConfig MidRange"
      and lc: "last_cleanup_frame s = 0" and le: "last_emergency_frame s = 0"
      and lo: "118 \<le> current_frame s" and hi: "current_frame s \<le> 0xFFFFFFFD"
  shows "(let (s1, s2, s3) = usage_sequence (MiB 800) (MiB 1300) (MiB 1470) s
          in calls s1 = calls s
           \<and> cleanup_count s1 = cleanup_count s
           \<and> emergency_purge_count s1 = emergency_purge_count s
           \<and> calls s2 = calls s @ map CleanupCall [0..<length (cleanup_callbacks s)]
           \<and> cleanup_count s2 = cleanup_count s + 1
           \<and> emergency_purge_count s2 = emergency_purge_count s
           \<and> calls s3 = calls s2 @ map EmergencyCall [0..<length (emergency_callbacks s)]
           \<and> cleanup_count s3 = cleanup_count s + 1
           \<and> emergency_purge_count s3 = emergency_purge_count s + 1)"
proof -
  define s1 where "s1 = UpdateUsage (MiB 800) s"
  define t1 where "t1 = TickFrame s1"
  define s2 where "s2 = UpdateUsage (MiB 1300) t1"
  define t2 where "t2 = TickFrame s2"
  define s3 where "s3 = UpdateUsage (MiB 1470) t2"
  note f = frame_facts[OF lo hi]
  have s1: "s1 = s\<lparr>current_usage := MiB 800,
       peak_usage := (if peak_usage s < MiB 800 then MiB 800 else peak_usage s),
       last_pressure := None_Pressure\<rparr>"
    unfolding s1_def using cfg by (rule UpdateUsage_800)
  have t1: "config t1 = GetRecommendedConfig MidRange" "last_pressure t1 = None_Pressure"
    "60 \<le> current_frame t1 - last_cleanup_frame t1"
    using cfg lc f(1) by (simp_all add: t1_def TickFrame_def s1 del: GetRecommendedConfig.simps)
  note s2 = UpdateUsage_1300[OF t1, folded s2_def]
  have t1f: "calls t1 = calls s" "cleanup_count t1 = cleanup_count s"
    "emergency_purge_count t1 = emergency_purge_count s" "cleanup_callbacks t1 = cleanup_callbacks s"
    "emergency_callbacks t1 = emergency_callbacks s" "current_frame t1 = current_frame s + 1"
    "last_emergency_frame t1 = 0"
    using le by (simp_all add: t1_def TickFrame_def s1)
  have t2: "config t2 = GetRecommendedConfig MidRange" "last_pressure t2 = Medium"
    "current_frame t2 - last_cleanup_frame t2 < 60"
    "120 \<le> current_frame t2 - last_emergency_frame t2"
    using t1(1) t1f f(2) by (simp_all add: t2_def TickFrame_def s2 del: GetRecommendedConfig.simps)
  note s3 = UpdateUsage_1470[OF t2, folded s3_def]
  have t2f: "calls t2 = calls s2" "cleanup_count t2 = cleanup_count s2"
    "emergency_purge_count t2 = emergency_purge_count s2"
    "emergency_callbacks t2 = emergency_callbacks s"
    using t1f by (simp_all add: t2_def TickFrame_def s2)
  have r1: "calls s1 = calls s \<and> cleanup_count s1 = cleanup_count s
      \<and> emergency_purge_count s1 = emergency_purge_count s"
    by (simp add: s1)
  have r2: "calls s2 = calls s @ map CleanupCall [0..<length (cleanup_callbacks s)]
      \<and> cleanup_count s2 = cleanup_count s + 1
      \<and> emergency_purge_count s2 = emergency_purge_count s"
    using t1f by (simp add: s2)
  have r3: "calls s3 = calls s2 @ map EmergencyCall [0..<length (emergency_callbacks s)]
      \<and> cleanup_count s3 = cleanup_count s + 1
      \<and> emergency_purge_count s3 = emergency_purge_count s + 1"
    using t2f r2 by (simp add: s3)
  have "usage_sequence (MiB 800) (MiB 1300) (MiB 1470) s = (s1, s2, s3)"
    by (simp add: usage_sequence_def Let_def s1_def t1_def s2_def t2_def s3_def)
  then show ?thesis using r1 r2 r3 by simp
qed

theorem midrange_sequence_after_warmup_witness:
  "config warm_midrange = GetRecommendedConfig MidRange
   \<and> last_cleanup_frame warm_midrange = 0 \<and> last_emergency_frame warm_midrange = 0
   \<and> 118 \<le> current_frame warm_midrange \<and> current_frame warm_midrange \<le> 0xFFFFFFFD
   \<and> (let (s1, s2, s3) = usage_sequence (MiB 800) (MiB 1300) (MiB 1470) warm_midrange
      in calls s1 = [] \<and> cleanup_count s1 = 0 \<and> emergency_purge_count s1 = 0
       \<and> calls s2 = [CleanupCall 0] \<and> cleanup_count s2 = 1 \<and> emergency_purge_count s2 = 0
       \<and> calls s3 = [CleanupCall 0, EmergencyCall 0] \<and> cleanup_count s3 = 1
       \<and> emergency_purge_count s3 = 1)"
proof -
  have h: "config warm_midrange = GetRecommendedConfig MidRange"
    "last_cleanup_frame warm_midrange = 0" "last_emergency_frame warm_midrange = 0"
    "118 \<le> current_frame warm_midrange" "current_frame warm_midrange \<le> 0xFFFFFFFD"
    by (simp_all add: warm_midrange_fields del: GetRecommendedConfig.simps)
  show ?thesis
    using midrange_sequence_after_warmup[OF h] h
    by (simp add: warm_midrange_fields case_prod_beta Let_def del: GetRecommendedConfig.simps)
qed

text \<open>
  C3. \<open>RequestCleanup\<close> and \<open>ForceEmergencyPurge\<close> are claimed to invoke the registered
  callbacks in every state. On the fresh controller (frame 0) they invoke none, although
  a callback of each kind is registered.
\<close>

theorem manual_requests_on_fresh_controller:
  "cleanup_callbacks fresh_midrange \<noteq> [] \<and> calls (RequestCleanup fresh_midrange) = []
   \<and> emergency_callbacks fresh_midrange \<noteq> [] \<and> calls (ForceEmergencyPurge fresh_midrange) = []"
  by (simp add: fresh_midrange_def RegisterEmergencyCallback_def RegisterCleanupCallback_def
        new_VRAMManager_def RequestCleanup_def ForceEmergencyPurge_def
        ExecuteCleanup_def ExecuteEmergencyPurge_def)

text \<open>
  C3, amended. \<open>RequestCleanup\<close> invokes the cleanup callbacks, in registration order,
  exactly when automatic cleanup is enabled and at least 60 frames have elapsed since the
  last cleanup; \<open>ForceEmergencyPurge\<close> invokes the emergency callbacks exactly when the
  emergency purge is enabled and at least 120 frames have elapsed since the last purge
  (followed by the cleanup callbacks when the cleanup gate is open as well). Neither
  depends on the usage or on the byte thresholds.
\<close>

theorem manual_requests_are_gated:
  "calls (RequestCleanup s) = calls s @
     (if enable_auto_cleanup (config s) \<and> 60 \<le> current_frame s - last_cleanup_frame s
      then map CleanupCall [0..<length (cleanup_callbacks s)] else [])
   \<and> calls (ForceEmergencyPurge s) = calls s @
     (if enable_emergency_purge (config s) \<and> 120 \<le> current_frame s - last_emergency_frame s
      then map EmergencyCall [0..<length (emergency_callbacks s)] @
           (if enable_auto_cleanup (config s) \<and> 60 \<le> current_frame s - last_cleanup_frame s
            then map CleanupCall [0..<length (cleanup_callbacks s)] else [])
      else [])"
  by (simp only: RequestCleanup_def ForceEmergencyPurge_def ExecuteCleanup_calls
        ExecuteEmergencyPurge_calls simp_thms)

text \<open>
  C5. After a cleanup has executed at frame \<open>f\<close> (automatic cleanup enabled and at least 60
  frames since the previous one), no cleanup callback is invoked and the cleanup counter
  does not move during any run of the controller that ticks fewer than 60 frames,
  whatever usage is reported and however often, and whatever manual requests are made.
  The minimum interval is the constant 60 of \<open>ExecuteCleanup\<close> and \<open>ShouldCleanup\<close>.
\<close>

theorem cleanup_gate_holds_for_60_frames:
  assumes "enable_auto_cleanup (config s)"
      and "60 \<le> current_frame s - last_cleanup_frame s"
      and "length (filter is_tick ops) < 60"
  shows "last_cleanup_frame (ExecuteCleanup s) = current_frame s
       \<and> filter is_cleanup_call (calls (vram_run ops (ExecuteCleanup s)))
           = filter is_cleanup_call (calls (ExecuteCleanup s))
       \<and> cleanup_count (vram_run ops (ExecuteCleanup s)) = cleanup_count (ExecuteCleanup s)"
proof -
  have l: "last_cleanup_frame (ExecuteCleanup s) = current_frame s"
    using assms(1,2) by (simp add: ExecuteCleanup_open)
  then have "unat (current_frame (ExecuteCleanup s) - last_cleanup_frame (ExecuteCleanup s))
      + length (filter is_tick ops) < 60"
    using assms(3) by simp
  then have "snd (cleanup_view (vram_run ops (ExecuteCleanup s))) = snd (cleanup_view (ExecuteCleanup s))"
    by (rule view_vram_run)
  then show ?thesis using l by (simp add: cleanup_view_def)
qed

theorem cleanup_gate_holds_for_60_frames_witness:
  "enable_auto_cleanup (config warm_midrange)
   \<and> 60 \<le> current_frame warm_midrange - last_cleanup_frame warm_midrange
   \<and> length (filter is_tick [OpTickFrame, OpUpdateUsage (MiB 1400), OpTickFrame, OpUpdateUsage (MiB 1400)]) < 60
   \<and> last_cleanup_frame (ExecuteCleanup warm_midrange) = 200
   \<and> filter is_cleanup_call (calls (vram_run
         [OpTickFrame, OpUpdateUsage (MiB 1400), OpTickFrame, OpUpdateUsage (MiB 1400)]
         (ExecuteCleanup warm_midrange))) = [CleanupCall 0]
   \<and> cleanup_count (vram_run
         [OpTickFrame, OpUpdateUsage (MiB 1400), OpTickFrame, OpUpdateUsage (MiB 1400)]
         (ExecuteCleanup warm_midrange)) = 1"
proof -
  have h1: "enable_auto_cleanup (config warm_midrange)"
    by (simp add: warm_midrange_fields MidRange_thresholds del: GetRecommendedConfig.simps)
  have h2: "60 \<le> current_frame warm_midrange - last_cleanup_frame warm_midrange"
    by (simp add: warm_midrange_fields)
  have h3: "length (filter is_tick [OpTickFrame, OpUpdateUsage (MiB 1400), OpTickFrame,
      OpUpdateUsage (MiB 1400) :: nat vram_op]) < 60"
    by simp
  have c: "calls (ExecuteCleanup warm_midrange) = [CleanupCall 0]"
    "cleanup_count (ExecuteCleanup warm_midrange) = 1"
    using h1 h2 by (simp_all add: ExecuteCleanup_open warm_midrange_fields)
  show ?thesis
    using cleanup_gate_holds_for_60_frames[OF h1 h2 h3] h1 h2 c
    by (simp add: warm_midrange_fields)
qed

text \<open>
  C7. For a fixed configuration and usages \<open>a < b\<close>, the pressure level computed for \<open>a\<close>
  is at most the one computed for \<open>b\<close>. This holds for every configuration, also one whose
  thresholds are not increasing or whose cap is zero.
\<close>

theorem CalculatePressure_monotonic:
  assumes "a < b"
  shows "pressure_rank (CalculatePressure (s\<lparr>current_usage := a\<rparr>))
           \<le> pressure_rank (CalculatePressure (s\<lparr>current_usage := b\<rparr>))"
proof -
  have le: "a \<le> b" using assms by simp
  note m = GetUsagePercentage_mono[OF le, of s]
  show ?thesis
    using m[of "critical_pressure_threshold (config s)"]
          m[of "high_pressure_threshold (config s)"]
          m[of "medium_pressure_threshold (config s)"]
          m[of "low_pressure_threshold (config s)"]
    by (simp add: CalculatePressure_def Let_def)
qed

theorem CalculatePressure_monotonic_witness:
  "MiB 800 < MiB 1300
   \<and> pressure_rank (CalculatePressure (fresh_midrange\<lparr>current_usage := MiB 800\<rparr>))
       \<le> pressure_rank (CalculatePressure (fresh_midrange\<lparr>current_usage := MiB 1300\<rparr>))"
proof -
  have h: "MiB 800 < MiB 1300" by (simp add: MiB_def)
  show ?thesis using CalculatePressure_monotonic[OF h, of fresh_midrange] h by simp
qed

section \<open>The eviction engine\<close>

lemma gc_TickFrame_funpow:
  "(gc_TickFrame ^^ n) s = s\<lparr>gc_current_frame := gc_current_frame s + of_nat n\<rparr>"
  by (induction n) (simp_all add: gc_TickFrame_def add.assoc)

lemma pressure_example_eq:
  "pressure_example = \<lparr>gc_config = default_GCConfig, gc_current_frame = 20,
     current_vram_usage = MiB 600,
     tracked_textures = [(1, \<lparr>size_bytes = MiB 600, last_used_frame = 0,
        is_render_target = False, usage_count = 1\<rparr>)],
     total_textures_purged = 0, total_vram_freed = 0\<rparr>"
  by (simp add: pressure_example_def gc_TickFrame_funpow RegisterTexture_def table_assign_def
        new_TextureGarbageCollector_def)

lemma ShouldPurgeTexture_needs_threshold:
  "ShouldPurgeTexture s info frames_unused \<Longrightarrow> GetEffectiveThreshold s \<le> frames_unused"
  by (simp add: ShouldPurgeTexture_def Let_def split: if_splits)



lemma sum_list_delete:
  fixes f :: "'k \<times> 'v \<Rightarrow> u64"
  assumes "distinct (map fst al)" "map_of al k = Some v"
  shows "sum_list (map f al) = f (k, v) + sum_list (map f (AList.delete k al))"
  using assms
proof (induction al)
  case Nil
  then show ?case by simp
next
  case (Cons p al)
  obtain k' v' where p: "p = (k', v')" by (cases p)
  show ?case
  proof (cases "k' = k")
    case True
    then have "k \<notin> fst ` set al" using Cons.prems(1) p by simp
    then have "AList.delete k al = al" by (induction al) (auto simp: AList.delete_eq)
    then show ?thesis using True Cons.prems p by (simp add: AList.delete_eq)
  next
    case False
    then show ?thesis using Cons p by (simp add: AList.delete_eq)
  qed
qed

section \<open>The resource pool\<close>

lemma add_buffers_numeral:
  "add_buffers (numeral k) s =
     (let (b, s1) = CreateBuffer s
      in add_buffers (pred_numeral k) (s1\<lparr>available_buffers := available_buffers s1 @ [b],
                            all_buffers := all_buffers s1 @ [b]\<rparr>))"
  by (simp add: numeral_eq_Suc)

lemma acquire_many_numeral:
  "acquire_many (numeral k) s =
     (let (b, s1) = AcquireBuffer s; (bs, s2) = acquire_many (pred_numeral k) s1 in (b # bs, s2))"
  by (simp add: numeral_eq_Suc)

lemma new_pool_lists:
  "available_buffers (new_CommandBufferPool default_PoolConfig) = [0, 1, 2, 3, 4, 5, 6, 7, 8, 9, 10, 11, 12, 13, 14, 15]"
  "all_buffers (new_CommandBufferPool default_PoolConfig) = [0, 1, 2, 3, 4, 5, 6, 7, 8, 9, 10, 11, 12, 13, 14, 15]"
  "next_allocation_id (new_CommandBufferPool default_PoolConfig) = 16"
  "pool_config (new_CommandBufferPool default_PoolConfig) = default_PoolConfig"
  "pool_current_frame (new_CommandBufferPool default_PoolConfig) = 0"
  "last_shrink_frame (new_CommandBufferPool default_PoolConfig) = 0"
  by (simp_all add: new_CommandBufferPool_def InitializePool_def default_PoolConfig_def
        add_buffers_numeral CreateBuffer_def Let_def)

lemma shrink_loop_consistent:
  assumes "n \<le> length avail" "distinct avail" "distinct tracked" "set avail \<subseteq> set tracked"
  shows "shrink_loop n avail tracked = (drop n avail, filter (\<lambda>b. b \<notin> set (take n avail)) tracked)"
  using assms
proof (induction n avail tracked rule: shrink_loop.induct)
  case (1 avail tracked)
  then show ?case by simp
next
  case (2 n tracked)
  then show ?case by simp
next
  case (3 n buffer avail tracked)
  have "shrink_loop n avail (filter (\<lambda>b. b \<noteq> buffer) tracked)
      = (drop n avail, filter (\<lambda>b. b \<notin> set (take n avail)) (filter (\<lambda>b. b \<noteq> buffer) tracked))"
    using 3 by (intro "3.IH") auto
  then show ?case by (auto intro: filter_cong)
qed

lemma length_filter_removed:
  assumes "distinct tracked" "distinct gone" "set gone \<subseteq> set tracked"
  shows "length (filter (\<lambda>b. b \<notin> set gone) tracked) = length tracked - length gone"
proof -
  have "set (filter (\<lambda>b. b \<notin> set gone) tracked) = set tracked - set gone" by auto
  moreover have "distinct (filter (\<lambda>b. b \<notin> set gone) tracked)" using assms(1) by simp
  ultimately have "length (filter (\<lambda>b. b \<notin> set gone) tracked) = card (set tracked - set gone)"
    by (metis distinct_card)
  also have "\<dots> = card (set tracked) - card (set gone)"
    using assms(3) by (simp add: card_Diff_subset)
  finally show ?thesis using assms(1,2) by (simp add: distinct_card)
qed

lemma ShrinkPool_consistent:
  assumes c: "pool_consistent s"
      and gt: "initial_pool_size (pool_config s) div 2 < length (available_buffers s)"
  shows "length (available_buffers (ShrinkPool s)) = initial_pool_size (pool_config s) div 2"
    and "length (all_buffers (ShrinkPool s))
           = length (all_buffers s)
             - (length (available_buffers s) - initial_pool_size (pool_config s) div 2)"
    and "pool_consistent (ShrinkPool s)"
proof -
  define n where "n = length (available_buffers s) - initial_pool_size (pool_config s) div 2"
  have n: "n \<le> length (available_buffers s)" by (simp add: n_def)
  have d: "distinct (available_buffers s)" "distinct (all_buffers s)"
    "set (available_buffers s) \<subseteq> set (all_buffers s)"
    using c by (simp_all add: pool_consistent_def)
  have loop: "shrink_loop n (available_buffers s) (all_buffers s)
      = (drop n (available_buffers s),
         filter (\<lambda>b. b \<notin> set (take n (available_buffers s))) (all_buffers s))"
    using n d by (rule shrink_loop_consistent)
  have sp: "ShrinkPool s = s\<lparr>available_buffers := drop n (available_buffers s),
      all_buffers := filter (\<lambda>b. b \<notin> set (take n (available_buffers s))) (all_buffers s),
      pool_shrinks := pool_shrinks s + 1, last_shrink_frame := pool_current_frame s\<rparr>"
    using gt loop by (simp add: ShrinkPool_def Let_def n_def[symmetric])
  show "length (available_buffers (ShrinkPool s)) = initial_pool_size (pool_config s) div 2"
    using gt by (simp add: sp n_def)
  have "set (take n (available_buffers s)) \<subseteq> set (all_buffers s)"
    using d(3) set_take_subset[of n "available_buffers s"] by blast
  then have "length (filter (\<lambda>b. b \<notin> set (take n (available_buffers s))) (all_buffers s))
      = length (all_buffers s) - length (take n (available_buffers s))"
    using d by (intro length_filter_removed) simp_all
  then show "length (all_buffers (ShrinkPool s))
           = length (all_buffers s)
             - (length (available_buffers s) - initial_pool_size (pool_config s) div 2)"
    using n by (simp add: sp n_def)
  have "set (drop n (available_buffers s)) \<inter> set (take n (available_buffers s)) = {}"
    using d(1) by (metis append_take_drop_id distinct_append inf_commute)
  moreover have "set (drop n (available_buffers s)) \<subseteq> set (all_buffers s)"
    using d(3) set_drop_subset[of n "available_buffers s"] by blast
  ultimately show "pool_consistent (ShrinkPool s)"
    using d by (auto simp: sp pool_consistent_def)
qed

lemma AcquireBuffer_reuse:
  assumes "available_buffers s = b # rest"
  shows "fst (AcquireBuffer s) = b"
    and "available_buffers (snd (AcquireBuffer s)) = rest"
    and "all_buffers (snd (AcquireBuffer s)) = all_buffers s"
    and "next_allocation_id (snd (AcquireBuffer s)) = next_allocation_id s"
    and "pool_expansions (snd (AcquireBuffer s)) = pool_expansions s"
    and "pool_config (snd (AcquireBuffer s)) = pool_config s"
    and "pool_current_frame (snd (AcquireBuffer s)) = pool_current_frame s"
    and "last_shrink_frame (snd (AcquireBuffer s)) = last_shrink_frame s"
  using assms by (simp_all add: AcquireBuffer_def Reset_def split: option.split)






lemma ReleaseBuffer_tracked:
  assumes "b \<in> set (all_buffers s)"
  shows "available_buffers (ReleaseBuffer (Some b) s) = available_buffers s @ [b]"
    and "all_buffers (ReleaseBuffer (Some b) s) = all_buffers s"
    and "pool_expansions (ReleaseBuffer (Some b) s) = pool_expansions s"
    and "pool_config (ReleaseBuffer (Some b) s) = pool_config s"
    and "pool_current_frame (ReleaseBuffer (Some b) s) = pool_current_frame s"
    and "last_shrink_frame (ReleaseBuffer (Some b) s) = last_shrink_frame s"
  using assms by (simp_all add: ReleaseBuffer_def Reset_def Let_def split: option.split)









text \<open>
  Without a double release the tracked and the available buffers stay consistent, so the
  available buffers never outnumber the tracked ones and the counts of \<open>GetStats\<close> add up.
\<close>

lemma add_buffers_inv:
  assumes "pool_consistent s" "pool_fresh s"
  shows "pool_consistent (add_buffers n s) \<and> pool_fresh (add_buffers n s)"
  using assms
proof (induction n arbitrary: s)
  case 0
  then show ?case by simp
next
  case (Suc n)
  define s' where "s' = s\<lparr>buffers := (buffers s)(next_allocation_id s \<mapsto>
        \<lparr>data_size = buffer_size (pool_config s), position = 0\<rparr>),
      next_allocation_id := next_allocation_id s + 1,
      available_buffers := available_buffers s @ [next_allocation_id s],
      all_buffers := all_buffers s @ [next_allocation_id s]\<rparr>"
  have e: "add_buffers (Suc n) s = add_buffers n s'"
    by (simp add: CreateBuffer_def Let_def s'_def)
  have "next_allocation_id s \<notin> set (all_buffers s)"
    using Suc.prems(2) by (auto simp: pool_fresh_def)
  then have "pool_consistent s'" "pool_fresh s'"
    using Suc.prems by (auto simp: pool_consistent_def pool_fresh_def s'_def)
  then show ?case unfolding e by (rule Suc.IH)
qed

lemma new_pool_inv:
  "pool_consistent (new_CommandBufferPool cfg) \<and> pool_fresh (new_CommandBufferPool cfg)"
  unfolding new_CommandBufferPool_def InitializePool_def
  by (rule add_buffers_inv) (simp_all add: pool_consistent_def pool_fresh_def)

lemma AcquireBuffer_inv:
  assumes "pool_consistent s" "pool_fresh s"
  shows "pool_consistent (snd (AcquireBuffer s)) \<and> pool_fresh (snd (AcquireBuffer s))"
proof (cases "available_buffers s")
  case Nil
  have "next_allocation_id s \<notin> set (all_buffers s)"
    using assms(2) by (auto simp: pool_fresh_def)
  then show ?thesis using assms Nil
    by (auto simp: AcquireBuffer_def CreateBuffer_def Let_def pool_consistent_def pool_fresh_def)
next
  case (Cons b rest)
  then show ?thesis using assms
    by (auto simp: AcquireBuffer_def Reset_def pool_consistent_def pool_fresh_def
        split: option.split)
qed

lemma ReleaseBuffer_inv:
  assumes "pool_consistent s" "pool_fresh s"
      and "\<And>b. buffer = Some b \<Longrightarrow> b \<notin> set (available_buffers s)"
  shows "pool_consistent (ReleaseBuffer buffer s) \<and> pool_fresh (ReleaseBuffer buffer s)"
  using assms
  by (cases buffer)
     (auto simp: ReleaseBuffer_def Reset_def Let_def pool_consistent_def pool_fresh_def
        split: option.split)

lemma ExpandPool_inv:
  assumes "pool_consistent s" "pool_fresh s"
  shows "pool_consistent (ExpandPool n s) \<and> pool_fresh (ExpandPool n s)"
proof -
  have "\<And>k. pool_consistent (add_buffers k s) \<and> pool_fresh (add_buffers k s)"
    using assms by (rule add_buffers_inv)
  then show ?thesis
    by (simp add: ExpandPool_def Let_def pool_consistent_def pool_fresh_def)
qed

lemma ShrinkPool_inv:
  assumes "pool_consistent s" "pool_fresh s"
  shows "pool_consistent (ShrinkPool s) \<and> pool_fresh (ShrinkPool s)"
proof (cases "initial_pool_size (pool_config s) div 2 < length (available_buffers s)")
  case True
  have c: "pool_consistent (ShrinkPool s)" using assms(1) True by (rule ShrinkPool_consistent(3))
  define n where "n = length (available_buffers s) - initial_pool_size (pool_config s) div 2"
  have "shrink_loop n (available_buffers s) (all_buffers s)
      = (drop n (available_buffers s),
         filter (\<lambda>b. b \<notin> set (take n (available_buffers s))) (all_buffers s))"
    using assms(1) by (intro shrink_loop_consistent) (simp_all add: n_def pool_consistent_def)
  then have "set (all_buffers (ShrinkPool s)) \<subseteq> set (all_buffers s)"
    "next_allocation_id (ShrinkPool s) = next_allocation_id s"
    using True by (auto simp: ShrinkPool_def Let_def n_def[symmetric])
  then have "pool_fresh (ShrinkPool s)" using assms(2) by (auto simp: pool_fresh_def)
  then show ?thesis using c by simp
next
  case False
  then have "ShrinkPool s = s" by (simp add: ShrinkPool_def Let_def)
  then show ?thesis using assms by simp
qed

lemma pool_TickFrame_inv:
  assumes "pool_consistent s" "pool_fresh s"
  shows "pool_consistent (pool_TickFrame s) \<and> pool_fresh (pool_TickFrame s)"
proof -
  define s1 where "s1 = s\<lparr>pool_current_frame := pool_current_frame s + 1\<rparr>"
  have i1: "pool_consistent s1" "pool_fresh s1"
    using assms by (simp_all add: s1_def pool_consistent_def pool_fresh_def)
  have "pool_TickFrame s = ShrinkPool s1 \<or> pool_TickFrame s = s1"
    by (simp add: pool_TickFrame_def Let_def s1_def)
  then show ?thesis using i1 ShrinkPool_inv[OF i1] by auto
qed

lemma pool_step_inv:
  assumes "pool_consistent s" "pool_fresh s" "no_double_release (op # ops) s"
  shows "pool_consistent (pool_step op s) \<and> pool_fresh (pool_step op s)
       \<and> no_double_release ops (pool_step op s)"
proof (cases op)
  case OpAcquire
  then show ?thesis using assms AcquireBuffer_inv[of s] by simp
next
  case (OpRelease buffer)
  show ?thesis
  proof (cases buffer)
    case None
    then show ?thesis using assms OpRelease ReleaseBuffer_inv[of s None] by simp
  next
    case (Some b)
    then have "b \<notin> set (available_buffers s)" using assms(3) OpRelease by simp
    then have "pool_consistent (ReleaseBuffer (Some b) s) \<and> pool_fresh (ReleaseBuffer (Some b) s)"
      using assms(1,2) by (intro ReleaseBuffer_inv) simp_all
    then show ?thesis using assms(3) OpRelease Some by simp
  qed
next
  case (OpExpand n)
  then show ?thesis using assms ExpandPool_inv[of s n] by simp
next
  case OpShrink
  then show ?thesis using assms ShrinkPool_inv[of s] by simp
next
  case OpPoolTick
  then show ?thesis using assms pool_TickFrame_inv[of s] by simp
qed

lemma pool_run_inv:
  assumes "pool_consistent s" "pool_fresh s" "no_double_release ops s"
  shows "pool_consistent (pool_run ops s) \<and> pool_fresh (pool_run ops s)"
  using assms
proof (induction ops arbitrary: s)
  case Nil
  then show ?case by simp
next
  case (Cons op ops)
  from pool_step_inv[OF Cons.prems]
  have "pool_consistent (pool_run ops (pool_step op s)) \<and> pool_fresh (pool_run ops (pool_step op s))"
    by (intro Cons.IH) simp_all
  then show ?case by simp
qed

lemma consistent_available_le_total:
  assumes "pool_consistent s"
  shows "length (available_buffers s) \<le> length (all_buffers s)"
proof -
  have "card (set (available_buffers s)) \<le> card (set (all_buffers s))"
    using assms by (intro card_mono) (simp_all add: pool_consistent_def)
  then show ?thesis using assms by (simp add: pool_consistent_def distinct_card)
qed

lemma pool_conservation_without_double_release:
  assumes "no_double_release ops (new_CommandBufferPool cfg)"
      and "length (all_buffers (pool_run ops (new_CommandBufferPool cfg))) < size_t_max"
  shows "stat_available_buffers (GetStats (pool_run ops (new_CommandBufferPool cfg)))
           + active_buffers (GetStats (pool_run ops (new_CommandBufferPool cfg)))
         = total_buffers (GetStats (pool_run ops (new_CommandBufferPool cfg)))"
proof -
  have "pool_consistent (pool_run ops (new_CommandBufferPool cfg))"
    using new_pool_inv[of cfg] assms(1) pool_run_inv by blast
  then have "length (available_buffers (pool_run ops (new_CommandBufferPool cfg)))
      \<le> length (all_buffers (pool_run ops (new_CommandBufferPool cfg)))"
    by (rule consistent_available_le_total)
  moreover have "(m + t - a) mod m = t - a" if "a \<le> t" "t < m" for a t m :: nat
  proof -
    have e: "m + t - a = (t - a) + m" using that by simp
    have "t - a < m" using that by simp
    then have "((t - a) + m) mod m = t - a" by simp
    then show ?thesis by (simp only: e)
  qed
  ultimately show ?thesis using assms(2) by (simp add: GetStats_def Let_def)
qed

section \<open>Claims about the eviction engine\<close>

text \<open>
  C2. Under the pressure predicate a non-pinned resource with a use count of at most 100 is
  claimed to be a purge candidate exactly when it has been unused for more than half the
  effective threshold. In \<open>ShouldPurgeTexture\<close> the first test returns false for every
  resource unused for fewer frames than the threshold, so the later test against half
  the threshold never decides: with the aggressive threshold 30 in force, a resource
  unused for 20 frames (more than 15) is not returned by \<open>GetTexturesToPurge\<close>.
\<close>

theorem aggressive_branch_unreachable_example:
  "IsMemoryPressureHigh pressure_example
   \<and> aggressive_mode (gc_config pressure_example)
   \<and> GetEffectiveThreshold pressure_example = 30
   \<and> map_of (tracked_textures pressure_example) 1
       = Some \<lparr>size_bytes = MiB 600, last_used_frame = 0, is_render_target = False, usage_count = 1\<rparr>
   \<and> gc_current_frame pressure_example - 0 = 20
   \<and> GetEffectiveThreshold pressure_example div 2 < 20
   \<and> fst (GetTexturesToPurge pressure_example) = []"
  by (simp add: pressure_example_eq IsMemoryPressureHigh_def GetEffectiveThreshold_def
        default_GCConfig_def MiB_def GetTexturesToPurge_def purge_candidates_def
        ShouldPurgeTexture_def SortTexturesByPriority_def Let_def)




text \<open>
  C10. When \<open>image_id\<close> is already tracked with size \<open>s_old\<close>, re-registering it and
  then unregistering it is claimed to leave the estimate above the sum of the tracked sizes
  by \<open>s_old\<close>, in every state. That is so only when the estimate was exact before: after
  the same id was registered twice with 100 MiB (estimate 200 MiB, tracked 100 MiB), a
  third registration followed by the unregistration leaves nothing tracked and the
  estimate at 200 MiB, not at \<open>s_old\<close> = 100 MiB.
\<close>

theorem reregistration_excess_after_drift:
  "map_of (tracked_textures twice_registered) 7
     = Some \<lparr>size_bytes = MiB 100, last_used_frame = 0, is_render_target = False, usage_count = 1\<rparr>
   \<and> tracked_textures (UnregisterTexture 7 (RegisterTexture 7 (MiB 40) True twice_registered)) = []
   \<and> tracked_size_sum (UnregisterTexture 7 (RegisterTexture 7 (MiB 40) True twice_registered)) = 0
   \<and> current_vram_usage (UnregisterTexture 7 (RegisterTexture 7 (MiB 40) True twice_registered))
       = MiB 200
   \<and> current_vram_usage (UnregisterTexture 7 (RegisterTexture 7 (MiB 40) True twice_registered))
       \<noteq> tracked_size_sum (UnregisterTexture 7 (RegisterTexture 7 (MiB 40) True twice_registered))
           + MiB 100"
  by (simp add: twice_registered_def one_registered_def RegisterTexture_def table_assign_def
        UnregisterTexture_def new_TextureGarbageCollector_def tracked_size_sum_def
        AList.delete_eq MiB_def)

text \<open>
  C10, amended. When \<open>image_id\<close> is already tracked with size \<open>size_bytes old\<close>,
  \<open>RegisterTexture\<close> overwrites its record, leaves every other record alone and adds the
  full new size to the estimate. After unregistering the id again the estimate is back at
  its value before the two calls, while the tracked sizes have lost the old size: the
  excess of the estimate over the sum of the tracked sizes has grown by the old size, and
  it is exactly the old size when the estimate was exact before. All sums are \<open>u64\<close>.
\<close>

theorem reregistration_inflates_estimate:
  assumes d: "distinct (map fst (tracked_textures s))"
      and old: "map_of (tracked_textures s) image_id = Some old"
  shows "map_of (tracked_textures (RegisterTexture image_id s_new pinned s)) image_id
           = Some \<lparr>size_bytes = s_new, last_used_frame = gc_current_frame s,
                   is_render_target = pinned, usage_count = 1\<rparr>
       \<and> AList.delete image_id (tracked_textures (RegisterTexture image_id s_new pinned s))
           = AList.delete image_id (tracked_textures s)
       \<and> current_vram_usage (RegisterTexture image_id s_new pinned s) = current_vram_usage s + s_new
       \<and> (let s' = UnregisterTexture image_id (RegisterTexture image_id s_new pinned s)
          in tracked_textures s' = AList.delete image_id (tracked_textures s)
           \<and> current_vram_usage s' = current_vram_usage s
           \<and> tracked_size_sum s' + size_bytes old = tracked_size_sum s
           \<and> current_vram_usage s' - tracked_size_sum s'
               = (current_vram_usage s - tracked_size_sum s) + size_bytes old
           \<and> (current_vram_usage s = tracked_size_sum s
                \<longrightarrow> current_vram_usage s' = tracked_size_sum s' + size_bytes old))"
proof -
  define r where "r = RegisterTexture image_id s_new pinned s"
  define info where "info = \<lparr>size_bytes = s_new, last_used_frame = gc_current_frame s,
                   is_render_target = pinned, usage_count = 1\<rparr>"
  have r: "tracked_textures r = AList.update image_id info (tracked_textures s)"
    "current_vram_usage r = current_vram_usage s + s_new"
    using old by (simp_all add: r_def info_def RegisterTexture_def table_assign_def)
  have m: "map_of (tracked_textures r) image_id = Some info"
    by (simp add: r update_conv')
  have dl: "AList.delete image_id (tracked_textures r) = AList.delete image_id (tracked_textures s)"
    by (simp add: r delete_update_same)
  define s' where "s' = UnregisterTexture image_id r"
  have s': "tracked_textures s' = AList.delete image_id (tracked_textures s)"
    "current_vram_usage s' = current_vram_usage s"
    using m dl by (simp_all add: s'_def UnregisterTexture_def r info_def)
  have sum: "tracked_size_sum s = size_bytes old + tracked_size_sum s'"
    using sum_list_delete[OF d old, of "\<lambda>(image_id, info). size_bytes info"]
    by (simp add: tracked_size_sum_def s')
  have drift: "current_vram_usage s' - tracked_size_sum s'
      = (current_vram_usage s - tracked_size_sum s) + size_bytes old"
    using sum s'(2) by simp
  have exact: "current_vram_usage s = tracked_size_sum s
      \<longrightarrow> current_vram_usage s' = tracked_size_sum s' + size_bytes old"
    using sum s'(2) by simp
  have "tracked_textures s' = AList.delete image_id (tracked_textures s)
      \<and> current_vram_usage s' = current_vram_usage s
      \<and> tracked_size_sum s' + size_bytes old = tracked_size_sum s
      \<and> current_vram_usage s' - tracked_size_sum s'
          = (current_vram_usage s - tracked_size_sum s) + size_bytes old
      \<and> (current_vram_usage s = tracked_size_sum s
           \<longrightarrow> current_vram_usage s' = tracked_size_sum s' + size_bytes old)"
    using s' sum drift exact by simp
  then show ?thesis
    using m dl r(2) unfolding Let_def s'_def r_def info_def by blast
qed

theorem reregistration_inflates_estimate_witness:
  "distinct (map fst (tracked_textures one_registered))
   \<and> map_of (tracked_textures one_registered) 7
       = Some \<lparr>size_bytes = MiB 100, last_used_frame = 0, is_render_target = False, usage_count = 1\<rparr>
   \<and> current_vram_usage one_registered = tracked_size_sum one_registered
   \<and> current_vram_usage (RegisterTexture 7 (MiB 40) True one_registered) = MiB 140
   \<and> tracked_textures (UnregisterTexture 7 (RegisterTexture 7 (MiB 40) True one_registered)) = []
   \<and> current_vram_usage (UnregisterTexture 7 (RegisterTexture 7 (MiB 40) True one_registered))
       - tracked_size_sum (UnregisterTexture 7 (RegisterTexture 7 (MiB 40) True one_registered))
       = MiB 100"
proof -
  have h1: "distinct (map fst (tracked_textures one_registered))"
    by (simp add: one_registered_def RegisterTexture_def table_assign_def
          new_TextureGarbageCollector_def)
  have h2: "map_of (tracked_textures one_registered) 7
       = Some \<lparr>size_bytes = MiB 100, last_used_frame = 0, is_render_target = False, usage_count = 1\<rparr>"
    by (simp add: one_registered_def RegisterTexture_def table_assign_def
          new_TextureGarbageCollector_def)
  have s: "current_vram_usage one_registered = MiB 100" "tracked_size_sum one_registered = MiB 100"
    "AList.delete 7 (tracked_textures one_registered) = []"
    by (simp_all add: one_registered_def RegisterTexture_def table_assign_def
          new_TextureGarbageCollector_def tracked_size_sum_def AList.delete_eq)
  show ?thesis
    using reregistration_inflates_estimate[OF h1 h2, of "MiB 40" True] h1 h2 s
    by (simp add: Let_def MiB_def)
qed

section \<open>Claims about the resource pool\<close>




text \<open>
  C6. In every reachable state of the pool the available buffers are claimed not to
  exceed the tracked total. \<open>ReleaseBuffer\<close> checks that the handle is tracked, not that
  it is still out: released twice, a buffer is queued twice, the available count (17)
  exceeds the total (16), and the active count of \<open>GetStats\<close> wraps around. (Runs
  without such a release keep the conservation, see above.)
\<close>

theorem double_release_breaks_conservation:
  "length (all_buffers double_release) = 16
   \<and> length (available_buffers double_release) = 17
   \<and> total_buffers (GetStats double_release) = 16
   \<and> stat_available_buffers (GetStats double_release) = 17
   \<and> active_buffers (GetStats double_release) = 18446744073709551615"
proof -
  define p0 where "p0 = new_CommandBufferPool default_PoolConfig"
  have av: "available_buffers p0 = 0 # [1, 2, 3, 4, 5, 6, 7, 8, 9, 10, 11, 12, 13, 14, 15]"
    by (simp add: p0_def new_pool_lists)
  note a = AcquireBuffer_reuse[OF av]
  define s1 where "s1 = snd (AcquireBuffer p0)"
  have s1: "available_buffers s1 = [1, 2, 3, 4, 5, 6, 7, 8, 9, 10, 11, 12, 13, 14, 15]"
    "all_buffers s1 = [0, 1, 2, 3, 4, 5, 6, 7, 8, 9, 10, 11, 12, 13, 14, 15]"
    using a(2,3) by (simp_all add: s1_def p0_def new_pool_lists)
  have in1: "0 \<in> set (all_buffers s1)" by (simp add: s1)
  define s2 where "s2 = ReleaseBuffer (Some 0) s1"
  note r1 = ReleaseBuffer_tracked[OF in1, folded s2_def]
  have in2: "0 \<in> set (all_buffers s2)" by (simp add: r1 s1)
  note r2 = ReleaseBuffer_tracked[OF in2]
  have e: "double_release = ReleaseBuffer (Some 0) s2"
    using a(1) by (simp add: double_release_def case_prod_beta p0_def s1_def s2_def)
  have l: "length (available_buffers double_release) = 17"
    "length (all_buffers double_release) = 16"
    by (simp_all add: e r2 r1 s1)
  show ?thesis using l by (simp add: GetStats_def Let_def size_t_max_def)
qed

end
